theory Spec2Isabelle
  imports Main "HOL-Library.Word"
begin

unbundle bit_operations_syntax

section \<open>Machine types and errors\<close>

text \<open>
  Go's \<^verbatim>\<open>byte\<close>, \<^verbatim>\<open>uint32\<close> and \<^verbatim>\<open>uint64\<close> are words of 8, 32 and 64 bits;
  \<^verbatim>\<open>int64\<close> is a 64-bit word read in two's complement (\<open>sint\<close>), so that the
  conversions \<^verbatim>\<open>int64(x)\<close> of a \<^verbatim>\<open>uint64\<close> and \<^verbatim>\<open>uint64(x)\<close> of an \<^verbatim>\<open>int64\<close> are the
  identity on the bits, and \<^verbatim>\<open>uint32(x)\<close> is \<open>ucast\<close> (the low 32 bits).
\<close>

type_synonym byte = "8 word"
type_synonym uint32 = "32 word"
type_synonym uint64 = "64 word"
type_synonym int64 = "64 word"

text \<open>
  Every error return of the source is a value: \<open>EOF\<close> is \<^verbatim>\<open>io.EOF\<close>, \<open>IOError\<close> an
  error of the operating system (a failed write, a negative file offset, an empty
  mapping), \<open>CodecError\<close> an error of \<^verbatim>\<open>proto.Marshal\<close> or \<^verbatim>\<open>proto.Unmarshal\<close>, and
  \<open>Panic\<close> a run-time panic of Go (a slice expression out of range, a negative
  length given to \<^verbatim>\<open>make\<close>).
\<close>

datatype error = EOF | IOError | CodecError | Panic

section \<open>Big-endian encoding (\<^verbatim>\<open>enc = binary.BigEndian\<close>)\<close>

definition PutUint32 :: "uint32 \<Rightarrow> byte list" where
  "PutUint32 v = [ucast (drop_bit 24 v), ucast (drop_bit 16 v), ucast (drop_bit 8 v), ucast v]"

definition Uint32 :: "byte list \<Rightarrow> uint32" where
  "Uint32 b = ucast (b ! 3) OR push_bit 8 (ucast (b ! 2)) OR push_bit 16 (ucast (b ! 1))
     OR push_bit 24 (ucast (b ! 0))"

definition PutUint64 :: "uint64 \<Rightarrow> byte list" where
  "PutUint64 v = [ucast (drop_bit 56 v), ucast (drop_bit 48 v), ucast (drop_bit 40 v),
     ucast (drop_bit 32 v), ucast (drop_bit 24 v), ucast (drop_bit 16 v),
     ucast (drop_bit 8 v), ucast v]"

definition Uint64 :: "byte list \<Rightarrow> uint64" where
  "Uint64 b = ucast (b ! 7) OR push_bit 8 (ucast (b ! 6)) OR push_bit 16 (ucast (b ! 5))
     OR push_bit 24 (ucast (b ! 4)) OR push_bit 32 (ucast (b ! 3)) OR push_bit 40 (ucast (b ! 2))
     OR push_bit 48 (ucast (b ! 1)) OR push_bit 56 (ucast (b ! 0))"

section \<open>Slices of a byte array\<close>

text \<open>
  The slice expression \<^verbatim>\<open>b[lo:hi]\<close> panics unless \<open>lo \<le> hi \<le> cap b\<close>; the mapped
  region has \<open>cap = len\<close>. \<open>slice\<close> reads the slice, \<open>put_slice\<close> overwrites it in
  place with bytes of the same number (what \<^verbatim>\<open>enc.PutUint32(b[lo:hi], v)\<close> does to \<open>b\<close>).
\<close>

definition slice_ok :: "byte list \<Rightarrow> uint64 \<Rightarrow> uint64 \<Rightarrow> bool" where
  "slice_ok b lo hi \<longleftrightarrow> unat lo \<le> unat hi \<and> unat hi \<le> length b"

definition slice :: "byte list \<Rightarrow> uint64 \<Rightarrow> uint64 \<Rightarrow> error + byte list" where
  "slice b lo hi =
     (if slice_ok b lo hi then Inr (take (unat hi - unat lo) (drop (unat lo) b))
      else Inl Panic)"

definition put_slice :: "byte list \<Rightarrow> uint64 \<Rightarrow> uint64 \<Rightarrow> byte list \<Rightarrow> error + byte list" where
  "put_slice b lo hi v =
     (if slice_ok b lo hi then Inr (take (unat lo) b @ v @ drop (unat hi) b)
      else Inl Panic)"

section \<open>The index (\<^verbatim>\<open>index.go\<close>)\<close>

definition offWidth :: uint64 where "offWidth = 4"
definition posWidth :: uint64 where "posWidth = 8"
definition entWidth :: uint64 where "entWidth = offWidth + posWidth"

record index =
  idx_mmap :: "byte list"
  idx_size :: uint64

text \<open>
  Modelled from the spec: the type \<^verbatim>\<open>Config\<close> of package \<^verbatim>\<open>log\<close> is declared outside the
  given sources; the code compares both limits with \<^verbatim>\<open>uint64\<close> sizes, and the spec names
  them \<^verbatim>\<open>Segment.MaxStoreBytes\<close> and \<^verbatim>\<open>Segment.MaxIndexBytes\<close>.
\<close>

record Config =
  MaxStoreBytes :: uint64
  MaxIndexBytes :: uint64

text \<open>
  \<^verbatim>\<open>os.Truncate(name, n)\<close> on a file: a negative \<open>n\<close> is refused; otherwise the file is cut
  to \<open>n\<close> bytes or extended with zero bytes.
\<close>

definition truncate_file :: "byte list \<Rightarrow> int64 \<Rightarrow> error + byte list" where
  "truncate_file f n =
     (if sint n < 0 then Inl IOError
      else Inr (take (unat n) f @ replicate (unat n - length f) 0))"

text \<open>
  \<^verbatim>\<open>newIndex\<close>: the logical size is the size of the file as found; the file is then
  truncated to \<^verbatim>\<open>MaxIndexBytes\<close> and mapped whole. Mapping an empty file is refused by
  the operating system. \<^verbatim>\<open>os.Stat\<close> is taken to succeed.
\<close>

definition newIndex :: "byte list \<Rightarrow> Config \<Rightarrow> error + index" where
  "newIndex f c =
     (let sz = (of_nat (length f) :: uint64) in
      case truncate_file f (MaxIndexBytes c) of
        Inl e \<Rightarrow> Inl e
      | Inr f' \<Rightarrow>
          if f' = [] then Inl IOError
          else Inr \<lparr>idx_mmap = f', idx_size = sz\<rparr>)"

definition isMaxed :: "index \<Rightarrow> bool" where
  "isMaxed i \<longleftrightarrow> (of_nat (length (idx_mmap i)) :: uint64) < idx_size i + entWidth"

definition index_Read :: "index \<Rightarrow> int64 \<Rightarrow> error + (uint32 \<times> uint64)" where
  "index_Read i n =
     (if idx_size i = 0 then Inl EOF
      else
        let out = (if n = - 1 then ucast (idx_size i div entWidth - 1) else ucast n) :: uint32;
            pos = (ucast out :: uint64) * entWidth
        in if idx_size i < pos + entWidth then Inl EOF
           else case slice (idx_mmap i) pos (pos + offWidth) of
                  Inl e \<Rightarrow> Inl e
                | Inr b1 \<Rightarrow>
                   (case slice (idx_mmap i) (pos + offWidth) (pos + entWidth) of
                      Inl e \<Rightarrow> Inl e
                    | Inr b2 \<Rightarrow> Inr (Uint32 b1, Uint64 b2)))"

text \<open>
  \<^verbatim>\<open>index.Write\<close> returns the index as the call leaves it, together with the error if
  there is one: the end-of-data return comes before anything is written.
\<close>

definition index_Write :: "index \<Rightarrow> uint32 \<Rightarrow> uint64 \<Rightarrow> index \<times> error option" where
  "index_Write i off pos =
     (if isMaxed i then (i, Some EOF)
      else case put_slice (idx_mmap i) (idx_size i) (idx_size i + offWidth) (PutUint32 off) of
             Inl e \<Rightarrow> (i, Some e)
           | Inr m1 \<Rightarrow>
              (case put_slice m1 (idx_size i + offWidth) (idx_size i + entWidth) (PutUint64 pos) of
                 Inl e \<Rightarrow> (i\<lparr>idx_mmap := m1\<rparr>, Some e)
               | Inr m2 \<Rightarrow> (\<lparr>idx_mmap = m2, idx_size = idx_size i + entWidth\<rparr>, None)))"

text \<open>
  \<^verbatim>\<open>index.Close\<close>: after the synchronisation the file holds the mapped bytes; it is
  truncated to the logical size. The result is the file left on disk.
\<close>

definition index_Close :: "index \<Rightarrow> error + byte list" where
  "index_Close i = truncate_file (idx_mmap i) (idx_size i)"

section \<open>The store (\<^verbatim>\<open>store.go\<close>)\<close>

definition lenWidth :: nat where "lenWidth = 8"

text \<open>
  The store is the file, the bytes that the buffered writer has accepted and not yet
  written to the file, the writer's error and the size counter. A \<^verbatim>\<open>bufio.Writer\<close>
  keeps the first error of a write and returns it from every later \<^verbatim>\<open>Write\<close> and
  \<^verbatim>\<open>Flush\<close>. Whether the operating system accepts the bytes of one call is an input
  of the model (\<open>None\<close>: it does). When the writer passes bytes on to the file is not
  observable, because every read flushes first; the model keeps them in the buffer until
  the next flush. The file is opened with \<^verbatim>\<open>O_APPEND\<close>: a flush adds at its end.
\<close>

record store =
  st_file :: "byte list"
  st_buf :: "byte list"
  st_err :: "error option"
  st_size :: uint64

definition buf_Write :: "store \<Rightarrow> byte list \<Rightarrow> error option \<Rightarrow> store \<times> (error + nat)" where
  "buf_Write s p w =
     (case st_err s of
        Some e \<Rightarrow> (s, Inl e)
      | None \<Rightarrow>
         (case w of
            Some e \<Rightarrow> (s\<lparr>st_err := Some e\<rparr>, Inl e)
          | None \<Rightarrow> (s\<lparr>st_buf := st_buf s @ p\<rparr>, Inr (length p))))"

definition buf_Flush :: "store \<Rightarrow> store \<times> error option" where
  "buf_Flush s =
     (case st_err s of
        Some e \<Rightarrow> (s, Some e)
      | None \<Rightarrow> (s\<lparr>st_file := st_file s @ st_buf s, st_buf := []\<rparr>, None))"

text \<open>\<^verbatim>\<open>newStore\<close>: the size counter starts at the size of the file (\<^verbatim>\<open>os.Stat\<close> is taken to succeed).\<close>

definition newStore :: "byte list \<Rightarrow> store" where
  "newStore f = \<lparr>st_file = f, st_buf = [], st_err = None, st_size = of_nat (length f)\<rparr>"

text \<open>
  \<^verbatim>\<open>store.Append\<close>: \<open>ws\<close> gives the outcome of the two writes (the length, then the
  payload). The result is the pair (bytes written, position).
\<close>

definition store_Append ::
  "store \<Rightarrow> byte list \<Rightarrow> error option \<times> error option \<Rightarrow> store \<times> (error + uint64 \<times> uint64)" where
  "store_Append s p ws =
     (let pos = st_size s in
      case buf_Write s (PutUint64 (of_nat (length p))) (fst ws) of
        (s1, Inl e) \<Rightarrow> (s1, Inl e)
      | (s1, Inr _) \<Rightarrow>
         (case buf_Write s1 p (snd ws) of
            (s2, Inl e) \<Rightarrow> (s2, Inl e)
          | (s2, Inr w) \<Rightarrow>
             (let w' = w + lenWidth
              in (s2\<lparr>st_size := st_size s2 + of_nat w'\<rparr>, Inr (of_nat w', pos)))))"

text \<open>
  \<^verbatim>\<open>File.ReadAt(b, off)\<close> with \<open>n = len b\<close>: a negative offset is an error; an empty
  buffer reads nothing; fewer than \<open>n\<close> bytes from \<open>off\<close> on is \<^verbatim>\<open>io.EOF\<close>.
\<close>

definition file_ReadAt :: "byte list \<Rightarrow> nat \<Rightarrow> int64 \<Rightarrow> error + byte list" where
  "file_ReadAt f n off =
     (if sint off < 0 then Inl IOError
      else if n = 0 then Inr []
      else if unat off + n \<le> length f then Inr (take n (drop (unat off) f))
      else Inl EOF)"

text \<open>\<^verbatim>\<open>store.Read\<close>; \<^verbatim>\<open>make([]byte, n)\<close> panics when \<open>n\<close> is not a length.\<close>

definition store_Read :: "store \<Rightarrow> uint64 \<Rightarrow> store \<times> (error + byte list)" where
  "store_Read s pos =
     (case buf_Flush s of
        (s1, Some e) \<Rightarrow> (s1, Inl e)
      | (s1, None) \<Rightarrow>
         (case file_ReadAt (st_file s1) lenWidth pos of
            Inl e \<Rightarrow> (s1, Inl e)
          | Inr sz \<Rightarrow>
             (if sint (Uint64 sz) < 0 then (s1, Inl Panic)
              else case file_ReadAt (st_file s1) (unat (Uint64 sz)) (pos + of_nat lenWidth) of
                     Inl e \<Rightarrow> (s1, Inl e)
                   | Inr b \<Rightarrow> (s1, Inr b))))"

text \<open>\<^verbatim>\<open>store.Close\<close>: the result is the file left on disk.\<close>

definition store_Close :: "store \<Rightarrow> error + byte list" where
  "store_Close s =
     (case buf_Flush s of
        (s1, Some e) \<Rightarrow> Inl e
      | (s1, None) \<Rightarrow> Inr (st_file s1))"

section \<open>The segment (\<^verbatim>\<open>segment.go\<close>)\<close>

text \<open>
  Modelled from the spec: the record type \<^verbatim>\<open>api.Record\<close> is generated code outside the
  given sources; the spec gives it the fields \<^verbatim>\<open>Value\<close> (bytes) and \<^verbatim>\<open>Offset\<close> (uint64).
  Its serialisation (\<^verbatim>\<open>proto.Marshal\<close>, \<^verbatim>\<open>proto.Unmarshal\<close>) is a parameter of the
  segment's operations.
\<close>

record api_Record =
  Value :: "byte list"
  Offset :: uint64

type_synonym marshal = "api_Record \<Rightarrow> error + byte list"
type_synonym unmarshal = "byte list \<Rightarrow> error + api_Record"

record segment =
  seg_store :: store
  seg_index :: index
  baseOffset :: uint64
  nextOffset :: uint64
  config :: Config

text \<open>
  The directory, as far as a segment of one base offset sees it: the contents of its
  store file and of its index file (\<^verbatim>\<open>O_CREATE\<close> makes a missing file an empty one).
\<close>

record files =
  store_file :: "byte list"
  index_file :: "byte list"

definition no_files :: files where
  "no_files = \<lparr>store_file = [], index_file = []\<rparr>"

text \<open>
  \<^verbatim>\<open>newSegment\<close>: any error of \<^verbatim>\<open>index.Read(-1)\<close> means an empty index; a panic is not
  an error return and ends the construction.
\<close>

definition newSegment :: "files \<Rightarrow> uint64 \<Rightarrow> Config \<Rightarrow> error + segment" where
  "newSegment fs b c =
     (let st = newStore (store_file fs) in
      case newIndex (index_file fs) c of
        Inl e \<Rightarrow> Inl e
      | Inr ix \<Rightarrow>
         (case index_Read ix (- 1) of
            Inl e \<Rightarrow>
              if e = Panic then Inl Panic
              else Inr \<lparr>seg_store = st, seg_index = ix, baseOffset = b, nextOffset = b, config = c\<rparr>
          | Inr (off, _) \<Rightarrow>
              Inr \<lparr>seg_store = st, seg_index = ix, baseOffset = b,
                   nextOffset = b + ucast off + 1, config = c\<rparr>))"

text \<open>
  \<^verbatim>\<open>segment.Append\<close>: the record is serialised with its \<^verbatim>\<open>Offset\<close> set to the next
  offset. The result is the segment as the call leaves it and the error or the offset.
\<close>

definition segment_Append ::
  "marshal \<Rightarrow> segment \<Rightarrow> api_Record \<Rightarrow> error option \<times> error option \<Rightarrow> segment \<times> (error + uint64)" where
  "segment_Append m s record ws =
     (let cur = nextOffset s in
      case m (record\<lparr>Offset := cur\<rparr>) of
        Inl e \<Rightarrow> (s, Inl e)
      | Inr p \<Rightarrow>
         (case store_Append (seg_store s) p ws of
            (st, Inl e) \<Rightarrow> (s\<lparr>seg_store := st\<rparr>, Inl e)
          | (st, Inr (_, pos)) \<Rightarrow>
             (case index_Write (seg_index s) (ucast (nextOffset s - baseOffset s)) pos of
                (ix, Some e) \<Rightarrow> (s\<lparr>seg_store := st, seg_index := ix\<rparr>, Inl e)
              | (ix, None) \<Rightarrow>
                 (s\<lparr>seg_store := st, seg_index := ix, nextOffset := nextOffset s + 1\<rparr>, Inr cur))))"

definition segment_Read :: "unmarshal \<Rightarrow> segment \<Rightarrow> uint64 \<Rightarrow> segment \<times> (error + api_Record)" where
  "segment_Read u s off =
     (case index_Read (seg_index s) (off - baseOffset s) of
        Inl e \<Rightarrow> (s, Inl e)
      | Inr (_, pos) \<Rightarrow>
         (case store_Read (seg_store s) pos of
            (st, Inl e) \<Rightarrow> (s\<lparr>seg_store := st\<rparr>, Inl e)
          | (st, Inr p) \<Rightarrow> (s\<lparr>seg_store := st\<rparr>, u p)))"


text \<open>\<^verbatim>\<open>segment.Close\<close>: the index first, then the store; the result is the files left.\<close>

definition segment_Close :: "segment \<Rightarrow> error + files" where
  "segment_Close s =
     (case index_Close (seg_index s) of
        Inl e \<Rightarrow> Inl e
      | Inr fi \<Rightarrow>
         (case store_Close (seg_store s) of
            Inl e \<Rightarrow> Inl e
          | Inr fs \<Rightarrow> Inr \<lparr>store_file = fs, index_file = fi\<rparr>))"

section \<open>Sequences of calls\<close>

text \<open>Appends one after the other: the last segment state and the result of each call.\<close>

fun appends ::
  "marshal \<Rightarrow> segment \<Rightarrow> (api_Record \<times> (error option \<times> error option)) list
     \<Rightarrow> segment \<times> (error + uint64) list" where
  "appends m s [] = (s, [])"
| "appends m s (x # xs) =
     (case segment_Append m s (fst x) (snd x) of
        (s1, r) \<Rightarrow> (case appends m s1 xs of (s2, rs) \<Rightarrow> (s2, r # rs)))"

text \<open>Index writes one after the other.\<close>

fun index_Writes :: "index \<Rightarrow> (uint32 \<times> uint64) list \<Rightarrow> index \<times> error option list" where
  "index_Writes i [] = (i, [])"
| "index_Writes i (x # xs) =
     (case index_Write i (fst x) (snd x) of
        (i1, r) \<Rightarrow> (case index_Writes i1 xs of (i2, rs) \<Rightarrow> (i2, r # rs)))"

text \<open>
  A serialisation to run the model on: the offset as eight big-endian bytes, then the
  value. The theorems below hold for every serialisation.
\<close>

definition wire_Marshal :: marshal where
  "wire_Marshal r = Inr (PutUint64 (Offset r) @ Value r)"

definition wire_Unmarshal :: unmarshal where
  "wire_Unmarshal p =
     (if length p < 8 then Inl CodecError
      else Inr \<lparr>Value = drop 8 p, Offset = Uint64 (take 8 p)\<rparr>)"

text \<open>A serialisation that refuses a record with an empty value.\<close>

definition strict_Marshal :: marshal where
  "strict_Marshal r = (if Value r = [] then Inl CodecError else wire_Marshal r)"

section \<open>Notions for stating the properties\<close>

text \<open>
  The pair stored in slot \<open>k\<close> of the mapped region, and the entry number that
  \<^verbatim>\<open>index.Read\<close> computes from its argument.
\<close>

definition entry_at :: "index \<Rightarrow> nat \<Rightarrow> uint32 \<times> uint64" where
  "entry_at i k =
     (Uint32 (take 4 (drop (12 * k) (idx_mmap i))), Uint64 (take 8 (drop (12 * k + 4) (idx_mmap i))))"

definition entry_no :: "index \<Rightarrow> int64 \<Rightarrow> nat" where
  "entry_no i n = unat ((if n = - 1 then ucast (idx_size i div entWidth - 1) else ucast n) :: uint32)"

text \<open>
  The bytes of one entry, and an index that holds exactly the entries \<open>es\<close> in its
  logical prefix.
\<close>

definition entry_bytes :: "uint32 \<times> uint64 \<Rightarrow> byte list" where
  "entry_bytes e = PutUint32 (fst e) @ PutUint64 (snd e)"

definition index_holds :: "index \<Rightarrow> (uint32 \<times> uint64) list \<Rightarrow> bool" where
  "index_holds i es \<longleftrightarrow>
     unat (idx_size i) = 12 * length es \<and>
     12 * length es \<le> length (idx_mmap i) \<and>
     length (idx_mmap i) < 2 ^ 63 \<and>
     take (12 * length es) (idx_mmap i) = concat (map entry_bytes es)"

text \<open>
  The bytes of the store so far (file, then buffer); the frame that an append writes for a
  payload; and a frame that lies at a position of the store.
\<close>

definition store_content :: "store \<Rightarrow> byte list" where
  "store_content s = st_file s @ st_buf s"

definition frame :: "byte list \<Rightarrow> byte list" where
  "frame p = PutUint64 (of_nat (length p)) @ p"

definition frame_at :: "byte list \<Rightarrow> nat \<Rightarrow> byte list \<Rightarrow> bool" where
  "frame_at c pos p \<longleftrightarrow> pos + 8 + length p \<le> length c \<and> take (8 + length p) (drop pos c) = frame p"

text \<open>
  The history of a segment: for each successful append, in order, the position the store
  returned, the payload written and the record given. \<open>log_entries\<close> are the index
  entries of a history; \<open>store_holds\<close> says that a store without a write error, and short
  of \<open>2^63\<close> bytes, has its size counter equal to its length and every payload of the
  history framed at its position; \<open>seg_rel\<close> relates a segment of base \<open>b\<close> and
  configuration \<open>c\<close> to its history.
\<close>

definition log_entries :: "(uint64 \<times> byte list \<times> api_Record) list \<Rightarrow> (uint32 \<times> uint64) list" where
  "log_entries lg = map (\<lambda>k. (of_nat k, fst (lg ! k))) [0..<length lg]"

definition store_holds :: "store \<Rightarrow> (uint64 \<times> byte list \<times> api_Record) list \<Rightarrow> bool" where
  "store_holds st lg \<longleftrightarrow>
     (st_err st = None \<and> length (store_content st) < 2 ^ 63 \<longrightarrow>
        unat (st_size st) = length (store_content st) \<and>
        (\<forall>k<length lg. frame_at (store_content st) (unat (fst (lg ! k))) (fst (snd (lg ! k)))))"

definition seg_rel ::
  "marshal \<Rightarrow> uint64 \<Rightarrow> Config \<Rightarrow> segment \<Rightarrow> (uint64 \<times> byte list \<times> api_Record) list \<Rightarrow> bool" where
  "seg_rel m b c s lg \<longleftrightarrow>
     baseOffset s = b \<and> config s = c \<and> nextOffset s = b + of_nat (length lg) \<and>
     length (idx_mmap (seg_index s)) = unat (MaxIndexBytes c) \<and>
     index_holds (seg_index s) (log_entries lg) \<and>
     (\<forall>k<length lg. m ((snd (snd (lg ! k)))\<lparr>Offset := b + of_nat k\<rparr>) = Inr (fst (snd (lg ! k)))) \<and>
     store_holds (seg_store s) lg"

text \<open>
  An index file as the data model has it: whole entries, shorter than \<open>2^63\<close> bytes (a file
  size is an \<^verbatim>\<open>int64\<close>), the last entry storing its own entry number as relative offset.
  The empty file is one. \<open>count_inv\<close> is the record-count invariant of a segment.
\<close>

definition index_file_ok :: "byte list \<Rightarrow> bool" where
  "index_file_ok f \<longleftrightarrow>
     length f mod 12 = 0 \<and> length f < 2 ^ 63 \<and>
     (f \<noteq> [] \<longrightarrow> unat (Uint32 (take 4 (drop (length f - 12) f))) = length f div 12 - 1)"


section \<open>Words and encodings\<close>

lemma unat_of_nat64: "n < 2 ^ 64 \<Longrightarrow> unat (of_nat n :: uint64) = n"
  by (simp add: unat_of_nat)

lemma unat_add_nat64: "unat a + n < 2 ^ 64 \<Longrightarrow> unat (a + of_nat n :: uint64) = unat a + n"
  by (simp add: unat_word_ariths unat_of_nat)

lemma sint_neg_iff: "sint (w :: uint64) < 0 \<longleftrightarrow> 2 ^ 63 \<le> unat w"
proof -
  have "sint w < 0 \<longleftrightarrow> bit w 63"
    using bit_last_iff [of w] by simp
  also have "\<dots> \<longleftrightarrow> bit (unat w) 63"
    by (simp add: bit_unsigned_iff)
  also have "\<dots> \<longleftrightarrow> odd (unat w div 2 ^ 63)"
    by (simp add: bit_iff_odd)
  also have "\<dots> \<longleftrightarrow> 2 ^ 63 \<le> unat w"
  proof -
    have "unat w < 2 ^ 64" using unsigned_less [of w] by simp
    then have "unat w div 2 ^ 63 < 2" by (simp add: less_mult_imp_div_less)
    then have "unat w div 2 ^ 63 = 0 \<or> unat w div 2 ^ 63 = 1" by arith
    then show ?thesis by (auto simp: div_eq_0_iff not_less dest: div_greater_zero_iff[THEN iffD1])
  qed
  finally show ?thesis .
qed

lemma unat32_less: "unat (w :: uint32) < 2 ^ 32"
  using unsigned_less [of w] by simp


lemma unat_ucast_32_64: "unat (ucast (w :: uint32) :: uint64) = unat w"
proof -
  have "unat w < 2 ^ 64" using unat32_less [of w] by simp
  then show ?thesis
    by (simp add: unsigned_ucast_eq take_bit_nat_eq_self)
qed

lemma unat_ucast_64_32: "unat (ucast (w :: uint64) :: uint32) = unat w mod 2 ^ 32"
  by (simp add: unsigned_ucast_eq take_bit_eq_mod)

lemma ucast_of_nat_64_32: "(ucast (of_nat n :: uint64) :: uint32) = of_nat n"
proof -
  have "unat (ucast (of_nat n :: uint64) :: uint32) = unat (of_nat n :: uint32)"
    by (simp add: unat_ucast_64_32 unat_of_nat mod_mod_cancel)
  then show ?thesis by (rule word_unat_eq_iff [THEN iffD2])
qed

lemma unat_widths [simp]: "unat entWidth = 12" "unat offWidth = 4" "unat posWidth = 8"
  by (simp_all add: entWidth_def offWidth_def posWidth_def)

lemma unat_add64: "unat a + unat b < 2 ^ 64 \<Longrightarrow> unat (a + b :: uint64) = unat a + unat b"
  using unat_add_lem [of a b] by simp

lemma unat_entry_pos: "unat ((ucast (w :: uint32) :: uint64) * entWidth) = 12 * unat w"
proof -
  have "unat (ucast w :: uint64) * unat entWidth < 2 ^ 64"
    using unat32_less [of w] by (simp add: unat_ucast_32_64)
  then have "unat ((ucast w :: uint64) * entWidth) = unat (ucast w :: uint64) * unat entWidth"
    using unat_mult_lem [of "ucast w :: uint64" entWidth] by simp
  then show ?thesis by (simp add: unat_ucast_32_64)
qed

lemma of_nat_neq_minus1: "k < 2 ^ 32 \<Longrightarrow> (of_nat k :: uint64) \<noteq> - 1"
proof
  assume k: "k < 2 ^ 32" and e: "(of_nat k :: uint64) = - 1"
  have "unat (of_nat k :: uint64) = k"
    using k by (simp add: unat_of_nat64)
  moreover have "unat (- 1 :: uint64) = 2 ^ 64 - 1"
    by (simp add: unsigned_minus_1_eq_mask mask_eq_exp_minus_1)
  ultimately show False using k e by simp
qed

lemma unat_ucast_of_nat32: "k < 2 ^ 32 \<Longrightarrow> unat (ucast (of_nat k :: uint64) :: uint32) = k"
  by (simp add: ucast_of_nat_64_32 unat_of_nat)

lemma length_PutUint32 [simp]: "length (PutUint32 v) = 4"
  by (simp add: PutUint32_def)

lemma length_PutUint64 [simp]: "length (PutUint64 v) = 8"
  by (simp add: PutUint64_def)

lemma lane0_64: "bit (ucast (ucast (v :: uint64) :: byte) :: uint64) n \<longleftrightarrow> n < 8 \<and> bit v n"
  by (auto simp add: bit_simps)

lemma lane_64:
  "bit (push_bit m (ucast (ucast (drop_bit m (v :: uint64)) :: byte) :: uint64)) n \<longleftrightarrow>
     m \<le> n \<and> n < m + 8 \<and> n < 64 \<and> bit v n"
  by (auto simp add: bit_simps)

lemma Uint64_PutUint64 [simp]: "Uint64 (PutUint64 v) = v"
proof (rule bit_word_eqI)
  fix n :: nat
  assume "n < LENGTH(64)"
  then have n: "n < 64" by simp
  have "bit (Uint64 (PutUint64 v)) n \<longleftrightarrow>
      (n < 8 \<or> 8 \<le> n \<and> n < 16 \<or> 16 \<le> n \<and> n < 24 \<or> 24 \<le> n \<and> n < 32 \<or>
       32 \<le> n \<and> n < 40 \<or> 40 \<le> n \<and> n < 48 \<or> 48 \<le> n \<and> n < 56 \<or> 56 \<le> n \<and> n < 64) \<and> bit v n"
    unfolding Uint64_def PutUint64_def
    using n by (auto simp add: bit_or_iff lane0_64 lane_64)
  also have "\<dots> \<longleftrightarrow> bit v n"
    using n by auto
  finally show "bit (Uint64 (PutUint64 v)) n = bit v n" .
qed

lemma lane0_32: "bit (ucast (ucast (v :: uint32) :: byte) :: uint32) n \<longleftrightarrow> n < 8 \<and> bit v n"
  by (auto simp add: bit_simps)

lemma lane_32:
  "bit (push_bit m (ucast (ucast (drop_bit m (v :: uint32)) :: byte) :: uint32)) n \<longleftrightarrow>
     m \<le> n \<and> n < m + 8 \<and> n < 32 \<and> bit v n"
  by (auto simp add: bit_simps)

lemma Uint32_PutUint32 [simp]: "Uint32 (PutUint32 v) = v"
proof (rule bit_word_eqI)
  fix n :: nat
  assume "n < LENGTH(32)"
  then have n: "n < 32" by simp
  have "bit (Uint32 (PutUint32 v)) n \<longleftrightarrow>
      (n < 8 \<or> 8 \<le> n \<and> n < 16 \<or> 16 \<le> n \<and> n < 24 \<or> 24 \<le> n \<and> n < 32) \<and> bit v n"
    unfolding Uint32_def PutUint32_def
    using n by (auto simp add: bit_or_iff lane0_32 lane_32)
  also have "\<dots> \<longleftrightarrow> bit v n"
    using n by auto
  finally show "bit (Uint32 (PutUint32 v)) n = bit v n" .
qed

section \<open>The store\<close>

lemma store_Append_cases:
  "store_Append s p ws =
     (case st_err s of
        Some e \<Rightarrow> (s, Inl e)
      | None \<Rightarrow>
         (case fst ws of
            Some e \<Rightarrow> (s\<lparr>st_err := Some e\<rparr>, Inl e)
          | None \<Rightarrow>
             (case snd ws of
                Some e \<Rightarrow>
                  (s\<lparr>st_buf := st_buf s @ PutUint64 (of_nat (length p)), st_err := Some e\<rparr>, Inl e)
              | None \<Rightarrow>
                 (s\<lparr>st_buf := st_buf s @ PutUint64 (of_nat (length p)) @ p,
                    st_size := st_size s + of_nat (length p + 8)\<rparr>,
                  Inr (of_nat (length p + 8), st_size s)))))"
  by (simp add: store_Append_def buf_Write_def Let_def lenWidth_def split: option.splits)

lemma store_Append_ok:
  assumes "store_Append s p ws = (s', Inr (n, pos))"
  shows "st_err s = None" and "ws = (None, None)"
    and "s' = s\<lparr>st_buf := st_buf s @ PutUint64 (of_nat (length p)) @ p,
                 st_size := st_size s + of_nat (length p + 8)\<rparr>"
    and "n = of_nat (length p + 8)" and "pos = st_size s"
  using assms
  by (auto simp: store_Append_cases prod_eq_iff split: option.splits)

lemma store_Append_fail:
  "store_Append s p ws = (s', Inl e) \<Longrightarrow> st_err s' = Some e \<and> st_size s' = st_size s"
  by (auto simp: store_Append_cases split: option.splits)

text \<open>
  C9. A successful \<^verbatim>\<open>store.Append(p)\<close> returns \<open>8 + len p\<close> bytes written and the old
  size as the position; it leaves the file as it is and adds the eight big-endian bytes
  of the length, then \<open>p\<close>, at the end of the buffered bytes (so at the end of the file
  once flushed); the size counter grows by \<open>8 + len p\<close> (exactly, short of 64-bit
  overflow); and the bytes at every earlier position stay what they were.
\<close>

theorem store_Append_post:
  assumes "store_Append s p ws = (s', Inr (n, pos))"
  shows "n = of_nat (8 + length p) \<and> pos = st_size s \<and>
         st_file s' = st_file s \<and>
         st_buf s' = st_buf s @ PutUint64 (of_nat (length p)) @ p \<and>
         st_size s' = st_size s + of_nat (8 + length p) \<and>
         (8 + length p < 2 ^ 64 \<longrightarrow> unat n = 8 + length p) \<and>
         (unat (st_size s) + (8 + length p) < 2 ^ 64 \<longrightarrow>
            unat (st_size s') = unat (st_size s) + (8 + length p)) \<and>
         (\<forall>q k. q + k \<le> length (st_file s @ st_buf s) \<longrightarrow>
            take k (drop q (st_file s' @ st_buf s')) = take k (drop q (st_file s @ st_buf s)))"
proof -
  note ok = store_Append_ok [OF assms]
  have 1: "8 + length p < 2 ^ 64 \<Longrightarrow> unat (of_nat (8 + length p) :: uint64) = 8 + length p"
    by (rule unat_of_nat64)
  have 2: "unat (st_size s) + (8 + length p) < 2 ^ 64 \<Longrightarrow>
      unat (st_size s + of_nat (8 + length p)) = unat (st_size s) + (8 + length p)"
    by (rule unat_add_nat64)
  show ?thesis
    using ok(3,4,5) 1 2 by (simp add: add.commute)
qed

theorem store_Append_post_witness:
  "store_Append (newStore [1, 2, 3]) [9, 9] (None, None) =
     (\<lparr>st_file = [1, 2, 3], st_buf = [0, 0, 0, 0, 0, 0, 0, 2, 9, 9], st_err = None, st_size = 13\<rparr>,
      Inr (10, 3))
   \<and> unat (10 :: uint64) = 8 + length [9 :: byte, 9]
   \<and> take 3 (drop 0 ([1, 2, 3] @ [0, 0, 0, 0, 0, 0, 0, 2, 9, 9])) = take 3 (drop 0 ([1, 2, 3 :: byte] @ []))"
proof -
  have e: "store_Append (newStore [1, 2, 3]) [9, 9] (None, None) =
     (\<lparr>st_file = [1, 2, 3], st_buf = [0, 0, 0, 0, 0, 0, 0, 2, 9, 9], st_err = None, st_size = 13\<rparr>,
      Inr (10, 3))"
    by (simp add: store_Append_def buf_Write_def newStore_def lenWidth_def PutUint64_def)
  from store_Append_post [OF e] show ?thesis using e by (simp add: newStore_def)
qed

section \<open>One append\<close>

lemma segment_Append_Inl:
  assumes "segment_Append m s r ws = (s', Inl e)"
  shows "nextOffset s' = nextOffset s" and "baseOffset s' = baseOffset s" and "config s' = config s"
  using assms
  by (auto simp: segment_Append_def Let_def split: sum.splits prod.splits option.splits)

lemma segment_Append_Inr:
  assumes "segment_Append m s r ws = (s', Inr off)"
  shows "off = nextOffset s" and "nextOffset s' = nextOffset s + 1" and "baseOffset s' = baseOffset s"
    and "config s' = config s"
  using assms
  by (auto simp: segment_Append_def Let_def split: sum.splits prod.splits option.splits)

text \<open>
  C6. Whatever stage of \<^verbatim>\<open>segment.Append\<close> fails (the serialisation, the store's append,
  the index's write, end-of-data included), the call returns that error and leaves
  \<open>nextOffset\<close> as it was, so that the next successful append returns the offset that the
  failed call would have returned.
\<close>

theorem segment_Append_failure:
  assumes "segment_Append m s r ws = (s', res)"
  shows "(\<forall>e. m (r\<lparr>Offset := nextOffset s\<rparr>) = Inl e \<longrightarrow> res = Inl e) \<and>
         (\<forall>p e. m (r\<lparr>Offset := nextOffset s\<rparr>) = Inr p \<and>
                snd (store_Append (seg_store s) p ws) = Inl e \<longrightarrow> res = Inl e) \<and>
         (\<forall>p st n pos e. m (r\<lparr>Offset := nextOffset s\<rparr>) = Inr p \<and>
                store_Append (seg_store s) p ws = (st, Inr (n, pos)) \<and>
                snd (index_Write (seg_index s) (ucast (nextOffset s - baseOffset s)) pos) = Some e
                \<longrightarrow> res = Inl e) \<and>
         (\<forall>e. res = Inl e \<longrightarrow>
              nextOffset s' = nextOffset s \<and>
              (\<forall>r2 ws2 s2 off. segment_Append m s' r2 ws2 = (s2, Inr off) \<longrightarrow> off = nextOffset s))"
proof (intro conjI allI impI)
  fix e assume "m (r\<lparr>Offset := nextOffset s\<rparr>) = Inl e"
  with assms show "res = Inl e"
    by (simp add: segment_Append_def Let_def)
next
  fix p e
  assume "m (r\<lparr>Offset := nextOffset s\<rparr>) = Inr p \<and> snd (store_Append (seg_store s) p ws) = Inl e"
  with assms show "res = Inl e"
    by (auto simp: segment_Append_def Let_def split: prod.splits)
next
  fix p st n pos e
  assume "m (r\<lparr>Offset := nextOffset s\<rparr>) = Inr p \<and>
          store_Append (seg_store s) p ws = (st, Inr (n, pos)) \<and>
          snd (index_Write (seg_index s) (ucast (nextOffset s - baseOffset s)) pos) = Some e"
  with assms show "res = Inl e"
    by (auto simp: segment_Append_def Let_def split: prod.splits)
next
  fix e assume "res = Inl e"
  with assms show "nextOffset s' = nextOffset s"
    by (simp add: segment_Append_Inl)
next
  fix e r2 ws2 s2 off
  assume "res = Inl e" and "segment_Append m s' r2 ws2 = (s2, Inr off)"
  with assms show "off = nextOffset s"
    by (auto dest: segment_Append_Inl(1) segment_Append_Inr(1))
qed

theorem segment_Append_failure_witness:
  "segment_Append strict_Marshal
     \<lparr>seg_store = \<lparr>st_file = [], st_buf = [], st_err = None, st_size = 0\<rparr>,
      seg_index = \<lparr>idx_mmap = replicate 12 0, idx_size = 0\<rparr>,
      baseOffset = 5, nextOffset = 5,
      config = \<lparr>MaxStoreBytes = 1024, MaxIndexBytes = 12\<rparr>\<rparr>
     \<lparr>Value = [], Offset = 0\<rparr> (None, None) =
   (\<lparr>seg_store = \<lparr>st_file = [], st_buf = [], st_err = None, st_size = 0\<rparr>,
     seg_index = \<lparr>idx_mmap = replicate 12 0, idx_size = 0\<rparr>,
     baseOffset = 5, nextOffset = 5,
     config = \<lparr>MaxStoreBytes = 1024, MaxIndexBytes = 12\<rparr>\<rparr>, Inl CodecError)
   \<and>
   segment_Append strict_Marshal
     \<lparr>seg_store = \<lparr>st_file = [], st_buf = [], st_err = None, st_size = 0\<rparr>,
      seg_index = \<lparr>idx_mmap = replicate 12 0, idx_size = 0\<rparr>,
      baseOffset = 5, nextOffset = 5,
      config = \<lparr>MaxStoreBytes = 1024, MaxIndexBytes = 12\<rparr>\<rparr>
     \<lparr>Value = [7], Offset = 0\<rparr> (None, None) =
   (\<lparr>seg_store = \<lparr>st_file = [], st_buf = [0, 0, 0, 0, 0, 0, 0, 9, 0, 0, 0, 0, 0, 0, 0, 5, 7],
                   st_err = None, st_size = 17\<rparr>,
     seg_index = \<lparr>idx_mmap = replicate 12 0, idx_size = 12\<rparr>,
     baseOffset = 5, nextOffset = 6,
     config = \<lparr>MaxStoreBytes = 1024, MaxIndexBytes = 12\<rparr>\<rparr>, Inr 5)
   \<and>
   snd (segment_Append strict_Marshal
     \<lparr>seg_store = \<lparr>st_file = [], st_buf = [0, 0, 0, 0, 0, 0, 0, 9, 0, 0, 0, 0, 0, 0, 0, 5, 7],
                   st_err = None, st_size = 17\<rparr>,
      seg_index = \<lparr>idx_mmap = replicate 12 0, idx_size = 12\<rparr>,
      baseOffset = 5, nextOffset = 6,
      config = \<lparr>MaxStoreBytes = 1024, MaxIndexBytes = 12\<rparr>\<rparr>
     \<lparr>Value = [8], Offset = 0\<rparr> (None, None)) = Inl EOF
   \<and>
   nextOffset (fst (segment_Append strict_Marshal
     \<lparr>seg_store = \<lparr>st_file = [], st_buf = [0, 0, 0, 0, 0, 0, 0, 9, 0, 0, 0, 0, 0, 0, 0, 5, 7],
                   st_err = None, st_size = 17\<rparr>,
      seg_index = \<lparr>idx_mmap = replicate 12 0, idx_size = 12\<rparr>,
      baseOffset = 5, nextOffset = 6,
      config = \<lparr>MaxStoreBytes = 1024, MaxIndexBytes = 12\<rparr>\<rparr>
     \<lparr>Value = [8], Offset = 0\<rparr> (None, None))) = 6"
  (is "?a0 = (?s0, _) \<and> ?a1 = (?s1, _) \<and> snd ?a2 = _ \<and> _")
proof -
  have e0: "?a0 = (?s0, Inl CodecError)"
    by code_simp
  have e1: "?a1 = (?s1, Inr 5)"
    by code_simp
  have e2: "snd ?a2 = Inl EOF"
    by code_simp
  have e2': "?a2 = (fst ?a2, Inl EOF)"
    using e2 by (simp add: prod_eq_iff)
  from segment_Append_failure [OF e0] e1 have "(5 :: uint64) = nextOffset ?s0"
    by blast
  moreover from segment_Append_failure [OF e2'] have "nextOffset (fst ?a2) = nextOffset ?s1"
    by blast
  ultimately show ?thesis
    using e0 e1 e2 by simp
qed

section \<open>The index\<close>

lemma index_Read_char:
  assumes wf: "unat (idx_size i) \<le> length (idx_mmap i)"
  shows "index_Read i n =
     (if idx_size i = 0 \<or> unat (idx_size i) < 12 * entry_no i n + 12 then Inl EOF
      else Inr (entry_at i (entry_no i n)))"
proof -
  define out :: uint32
    where "out = (if n = - 1 then ucast (idx_size i div entWidth - 1) else ucast n)"
  define pos :: uint64 where "pos = ucast out * entWidth"
  define k where "k = unat out"
  have k: "entry_no i n = k"
    by (simp add: entry_no_def k_def out_def)
  have k32: "k < 2 ^ 32"
    unfolding k_def by (rule unat32_less)
  have upos: "unat pos = 12 * k"
    by (simp add: pos_def k_def unat_entry_pos)
  have upos4: "unat (pos + offWidth) = 12 * k + 4"
    using k32 by (simp add: unat_add64 upos)
  have upos12: "unat (pos + entWidth) = 12 * k + 12"
    using k32 by (simp add: unat_add64 upos)
  have lt: "idx_size i < pos + entWidth \<longleftrightarrow> unat (idx_size i) < 12 * k + 12"
    by (simp add: word_less_nat_alt upos12)
  have rd: "index_Read i n =
      (if idx_size i = 0 then Inl EOF
       else if idx_size i < pos + entWidth then Inl EOF
       else case slice (idx_mmap i) pos (pos + offWidth) of
              Inl e \<Rightarrow> Inl e
            | Inr b1 \<Rightarrow>
               (case slice (idx_mmap i) (pos + offWidth) (pos + entWidth) of
                  Inl e \<Rightarrow> Inl e
                | Inr b2 \<Rightarrow> Inr (Uint32 b1, Uint64 b2)))"
    unfolding index_Read_def Let_def out_def [symmetric] pos_def [symmetric] by simp
  show ?thesis
  proof (cases "idx_size i = 0 \<or> unat (idx_size i) < 12 * k + 12")
    case True
    then show ?thesis
      using lt by (auto simp: rd k)
  next
    case False
    then have le: "12 * k + 12 \<le> length (idx_mmap i)"
      using wf by simp
    have s1: "slice (idx_mmap i) pos (pos + offWidth) = Inr (take 4 (drop (12 * k) (idx_mmap i)))"
      using le by (simp add: slice_def slice_ok_def upos upos4)
    have s2: "slice (idx_mmap i) (pos + offWidth) (pos + entWidth) =
        Inr (take 8 (drop (12 * k + 4) (idx_mmap i)))"
      using le by (simp add: slice_def slice_ok_def upos4 upos12)
    show ?thesis
      using False lt by (simp add: rd k s1 s2 entry_at_def)
  qed
qed

lemma length_entry_bytes [simp]: "length (entry_bytes e) = 12"
  by (simp add: entry_bytes_def)

lemma length_concat_entries [simp]: "length (concat (map entry_bytes es)) = 12 * length es"
  by (induction es) simp_all

lemma drop_concat_entries:
  "drop (12 * k) (concat (map entry_bytes es)) = concat (map entry_bytes (drop k es))"
proof (induction es arbitrary: k)
  case Nil
  then show ?case by simp
next
  case (Cons e es)
  show ?case
  proof (cases k)
    case 0
    then show ?thesis by simp
  next
    case (Suc j)
    then show ?thesis using Cons.IH [of j] by simp
  qed
qed

lemma take_drop_concat_entries:
  assumes "k < length es"
  shows "take 12 (drop (12 * k) (concat (map entry_bytes es))) = entry_bytes (es ! k)"
proof -
  have "drop k es = es ! k # drop (Suc k) es"
    using assms by (simp add: Cons_nth_drop_Suc)
  then show ?thesis
    by (simp add: drop_concat_entries)
qed

lemma entry_at_block:
  "entry_at i k =
     (Uint32 (take 4 (take 12 (drop (12 * k) (idx_mmap i)))),
      Uint64 (take 8 (drop 4 (take 12 (drop (12 * k) (idx_mmap i))))))"
  by (simp add: entry_at_def drop_take add.commute)

lemma index_holds_block:
  assumes "index_holds i es" and "k < length es"
  shows "take 12 (drop (12 * k) (idx_mmap i)) = entry_bytes (es ! k)"
proof -
  have le: "12 * k + 12 \<le> 12 * length es"
    using assms(2) by simp
  have "take 12 (drop (12 * k) (idx_mmap i)) =
        take 12 (drop (12 * k) (take (12 * length es) (idx_mmap i)))"
    using le by (simp add: drop_take min_def)
  also have "\<dots> = entry_bytes (es ! k)"
    using assms by (simp add: index_holds_def take_drop_concat_entries)
  finally show ?thesis .
qed

lemma index_holds_entry_at:
  assumes "index_holds i es" and "k < length es"
  shows "entry_at i k = es ! k"
  by (simp add: entry_at_block index_holds_block [OF assms] entry_bytes_def)

lemma isMaxed_holds:
  assumes "index_holds i es"
  shows "isMaxed i \<longleftrightarrow> length (idx_mmap i) < 12 * length es + 12"
proof -
  have len: "length (idx_mmap i) < 2 ^ 63" and sz: "unat (idx_size i) = 12 * length es"
    and le: "12 * length es \<le> length (idx_mmap i)"
    using assms by (simp_all add: index_holds_def)
  have 1: "unat (of_nat (length (idx_mmap i)) :: uint64) = length (idx_mmap i)"
    using len by (simp add: unat_of_nat64)
  have 2: "unat (idx_size i + entWidth) = 12 * length es + 12"
    using len le sz by (simp add: unat_add64)
  show ?thesis
    by (simp add: isMaxed_def word_less_nat_alt 1 2)
qed

lemma index_Write_full:
  assumes "index_holds i es" and "length (idx_mmap i) < 12 * length es + 12"
  shows "index_Write i off pos = (i, Some EOF)"
  using assms by (simp add: index_Write_def isMaxed_holds)

lemma index_Write_room:
  assumes h: "index_holds i es" and room: "12 * length es + 12 \<le> length (idx_mmap i)"
  shows "index_Write i off pos =
     (\<lparr>idx_mmap = take (12 * length es) (idx_mmap i) @ entry_bytes (off, pos) @
                   drop (12 * length es + 12) (idx_mmap i),
       idx_size = idx_size i + entWidth\<rparr>, None)"
proof -
  define n where "n = length es"
  define mm where "mm = idx_mmap i"
  have len: "length mm < 2 ^ 63" and sz: "unat (idx_size i) = 12 * n"
    using h by (simp_all add: index_holds_def n_def mm_def)
  have room': "12 * n + 12 \<le> length mm"
    using room by (simp add: n_def mm_def)
  have u4: "unat (idx_size i + offWidth) = 12 * n + 4"
    using len room' sz by (simp add: unat_add64)
  have u12: "unat (idx_size i + entWidth) = 12 * n + 12"
    using len room' sz by (simp add: unat_add64)
  have nm: "\<not> isMaxed i"
    using room by (simp add: isMaxed_holds [OF h])
  define m1 where "m1 = take (12 * n) mm @ PutUint32 off @ drop (12 * n + 4) mm"
  have p1: "put_slice mm (idx_size i) (idx_size i + offWidth) (PutUint32 off) = Inr m1"
    using room' by (simp add: put_slice_def slice_ok_def sz u4 m1_def)
  have lm1: "length m1 = length mm"
    using room' by (simp add: m1_def)
  have t1: "take (12 * n + 4) m1 = take (12 * n) mm @ PutUint32 off"
    using room' by (simp add: m1_def)
  have d1: "drop (12 * n + 12) m1 = drop (12 * n + 12) mm"
    using room' by (simp add: m1_def ac_simps)
  have p2: "put_slice m1 (idx_size i + offWidth) (idx_size i + entWidth) (PutUint64 pos) =
      Inr (take (12 * n) mm @ PutUint32 off @ PutUint64 pos @ drop (12 * n + 12) mm)"
    using room' by (simp add: put_slice_def slice_ok_def u4 u12 lm1 t1 d1)
  show ?thesis
    using nm p1 p2 by (simp add: index_Write_def entry_bytes_def n_def mm_def)
qed

lemma index_holds_snoc:
  assumes h: "index_holds i es" and room: "12 * length es + 12 \<le> length (idx_mmap i)"
  shows "index_holds
     \<lparr>idx_mmap = take (12 * length es) (idx_mmap i) @ entry_bytes e @
                  drop (12 * length es + 12) (idx_mmap i),
      idx_size = idx_size i + entWidth\<rparr> (es @ [e])"
proof -
  have len: "length (idx_mmap i) < 2 ^ 63" and sz: "unat (idx_size i) = 12 * length es"
    and tk: "take (12 * length es) (idx_mmap i) = concat (map entry_bytes es)"
    using h by (simp_all add: index_holds_def)
  have u12: "unat (idx_size i + entWidth) = 12 * length es + 12"
    using len room sz by (simp add: unat_add64)
  show ?thesis
    using room len by (simp add: index_holds_def u12 tk)
qed

lemma index_holds_Read:
  assumes h: "index_holds i es" and n: "n \<noteq> - 1"
  shows "index_Read i n =
     (if unat (ucast n :: uint32) < length es then Inr (es ! unat (ucast n :: uint32)) else Inl EOF)"
proof -
  have wf: "unat (idx_size i) \<le> length (idx_mmap i)" and sz: "unat (idx_size i) = 12 * length es"
    using h by (simp_all add: index_holds_def)
  have no: "entry_no i n = unat (ucast n :: uint32)"
    using n by (simp add: entry_no_def)
  have z: "idx_size i = 0 \<longleftrightarrow> es = []"
    using sz by (simp add: unat_eq_0 [symmetric] del: unat_eq_0)
  show ?thesis
    using index_holds_entry_at [OF h]
    by (auto simp: index_Read_char [OF wf] no sz z)
qed

lemma index_holds_Read_last:
  assumes h: "index_holds i es"
  shows "index_Read i (- 1) =
     (if es = [] then Inl EOF else Inr (es ! ((length es - 1) mod 2 ^ 32)))"
proof -
  have wf: "unat (idx_size i) \<le> length (idx_mmap i)" and sz: "unat (idx_size i) = 12 * length es"
    using h by (simp_all add: index_holds_def)
  have z: "idx_size i = 0 \<longleftrightarrow> es = []"
    using sz by (simp add: unat_eq_0 [symmetric] del: unat_eq_0)
  show ?thesis
  proof (cases "es = []")
    case True
    then show ?thesis by (simp add: index_Read_char [OF wf] z)
  next
    case False
    then have pos: "0 < length es" by simp
    have d: "unat (idx_size i div entWidth) = length es"
      by (simp add: unat_div sz)
    have "1 \<le> idx_size i div entWidth"
      using False d by (cases es) (simp_all add: word_le_nat_alt)
    then have "unat (idx_size i div entWidth - 1) = length es - 1"
      using d by (simp add: unat_sub)
    then have no: "entry_no i (- 1) = (length es - 1) mod 2 ^ 32"
      by (simp add: entry_no_def unat_ucast_64_32)
    have "(length es - 1) mod 2 ^ 32 \<le> length es - 1"
      by (rule mod_less_eq_dividend)
    then have lt: "(length es - 1) mod 2 ^ 32 < length es"
      using pos by arith
    show ?thesis
      using False lt index_holds_entry_at [OF h lt]
      by (simp add: index_Read_char [OF wf] no sz z)
  qed
qed

lemma newIndex_Inr:
  assumes "newIndex f c = Inr i"
  shows "idx_size i = of_nat (length f)"
    and "idx_mmap i = take (unat (MaxIndexBytes c)) f @ replicate (unat (MaxIndexBytes c) - length f) 0"
    and "length (idx_mmap i) = unat (MaxIndexBytes c)"
    and "0 < unat (MaxIndexBytes c)" and "unat (MaxIndexBytes c) < 2 ^ 63"
proof -
  from assms have ns: "\<not> sint (MaxIndexBytes c) < 0"
    by (auto simp: newIndex_def truncate_file_def split: if_splits)
  then show lt: "unat (MaxIndexBytes c) < 2 ^ 63"
    by (simp add: sint_neg_iff)
  from assms ns show mm: "idx_mmap i =
      take (unat (MaxIndexBytes c)) f @ replicate (unat (MaxIndexBytes c) - length f) 0"
    by (auto simp: newIndex_def truncate_file_def Let_def split: if_splits)
  from assms ns show "idx_size i = of_nat (length f)"
    by (auto simp: newIndex_def truncate_file_def Let_def split: if_splits)
  show len: "length (idx_mmap i) = unat (MaxIndexBytes c)"
    by (simp add: mm min_def)
  from assms ns have "idx_mmap i \<noteq> []"
    by (auto simp: newIndex_def truncate_file_def Let_def split: if_splits)
  then show "0 < unat (MaxIndexBytes c)"
    using len by (metis length_greater_0_conv)
qed

lemma newIndex_ok:
  assumes "0 < unat (MaxIndexBytes c)" and "unat (MaxIndexBytes c) < 2 ^ 63"
  shows "newIndex f c =
     Inr \<lparr>idx_mmap = take (unat (MaxIndexBytes c)) f @ replicate (unat (MaxIndexBytes c) - length f) 0,
          idx_size = of_nat (length f)\<rparr>"
proof -
  have ns: "\<not> sint (MaxIndexBytes c) < 0"
    using assms(2) by (simp add: sint_neg_iff)
  have "length (take (unat (MaxIndexBytes c)) f @ replicate (unat (MaxIndexBytes c) - length f) (0 :: byte))
      = unat (MaxIndexBytes c)"
    by (simp add: min_def)
  then have "take (unat (MaxIndexBytes c)) f @ replicate (unat (MaxIndexBytes c) - length f) (0 :: byte) \<noteq> []"
    using assms(1) by (metis length_greater_0_conv)
  then show ?thesis
    using ns by (simp add: newIndex_def truncate_file_def Let_def)
qed

lemma newIndex_entries_holds:
  assumes "newIndex (concat (map entry_bytes es)) c = Inr i"
    and "12 * length es \<le> unat (MaxIndexBytes c)"
  shows "index_holds i es"
proof -
  note ni = newIndex_Inr [OF assms(1)]
  have "12 * length es < 2 ^ 64"
    using assms(2) ni(5) by simp
  then have "unat (of_nat (12 * length es) :: uint64) = 12 * length es"
    by (rule unat_of_nat64)
  then have "unat (idx_size i) = 12 * length es"
    by (simp only: ni(1) length_concat_entries)
  then show ?thesis
    using assms(2) ni(3,5) by (simp add: index_holds_def ni(2))
qed

lemma index_Close_holds:
  assumes "index_holds i es"
  shows "index_Close i = Inr (concat (map entry_bytes es))"
proof -
  have "unat (idx_size i) < 2 ^ 63"
    using assms by (simp add: index_holds_def)
  then have "\<not> sint (idx_size i) < 0"
    by (simp add: sint_neg_iff)
  then show ?thesis
    using assms by (simp add: index_Close_def truncate_file_def index_holds_def)
qed

lemma index_Writes_holds:
  assumes "index_holds i es" and "index_Writes i ps = (i', rs)"
  shows "\<exists>m\<le>length ps.
     index_holds i' (es @ take m ps) \<and>
     rs = replicate m None @ replicate (length ps - m) (Some EOF) \<and>
     length (idx_mmap i') = length (idx_mmap i) \<and>
     (m < length ps \<longrightarrow> length (idx_mmap i) < 12 * (length es + m) + 12)"
  using assms
proof (induction ps arbitrary: i es i' rs)
  case Nil
  then show ?case by simp
next
  case (Cons x xs)
  obtain i1 r where w: "index_Write i (fst x) (snd x) = (i1, r)"
    by (cases "index_Write i (fst x) (snd x)") 
  obtain i2 rs2 where ws: "index_Writes i1 xs = (i2, rs2)"
    by (cases "index_Writes i1 xs") 
  from Cons.prems(2) w ws have res: "i' = i2" "rs = r # rs2"
    by simp_all
  show ?case
  proof (cases "12 * length es + 12 \<le> length (idx_mmap i)")
    case True
    from index_Write_room [OF Cons.prems(1) True, of "fst x" "snd x"] w
    have i1: "i1 = \<lparr>idx_mmap = take (12 * length es) (idx_mmap i) @ entry_bytes x @
                   drop (12 * length es + 12) (idx_mmap i),
              idx_size = idx_size i + entWidth\<rparr>" and r: "r = None"
      by simp_all
    have h1: "index_holds i1 (es @ [x])"
      unfolding i1 by (rule index_holds_snoc [OF Cons.prems(1) True])
    have l1: "length (idx_mmap i1) = length (idx_mmap i)"
      using True by (simp add: i1)
    from Cons.IH [OF h1 ws] obtain m where m: "m \<le> length xs"
      "index_holds i2 ((es @ [x]) @ take m xs)"
      "rs2 = replicate m None @ replicate (length xs - m) (Some EOF)"
      "length (idx_mmap i2) = length (idx_mmap i1)"
      "m < length xs \<longrightarrow> length (idx_mmap i1) < 12 * (length (es @ [x]) + m) + 12"
      by blast
    show ?thesis
      apply (rule exI [of _ "Suc m"])
      using m l1 by (simp add: res r)
  next
    case False
    then have full: "length (idx_mmap i) < 12 * length es + 12" by simp
    from index_Write_full [OF Cons.prems(1) full, of "fst x" "snd x"] w
    have i1: "i1 = i" and r: "r = Some EOF"
      by simp_all
    from Cons.IH [OF Cons.prems(1) ws [unfolded i1]] obtain m where m: "m \<le> length xs"
      "index_holds i2 (es @ take m xs)"
      "rs2 = replicate m None @ replicate (length xs - m) (Some EOF)"
      "length (idx_mmap i2) = length (idx_mmap i)"
      "m < length xs \<longrightarrow> length (idx_mmap i) < 12 * (length es + m) + 12"
      by blast
    have m0: "m = 0"
    proof (rule ccontr)
      assume "m \<noteq> 0"
      then have "12 * (length es + m) \<ge> 12 * length es + 12" by simp
      moreover have "12 * length (es @ take m xs) \<le> length (idx_mmap i2)"
        using m(2) by (simp add: index_holds_def)
      ultimately show False using full m(1,4) by simp
    qed
    show ?thesis
      apply (rule exI [of _ 0])
      using m full by (simp add: res r m0)
  qed
qed

text \<open>
  C8. \<^verbatim>\<open>index.Read\<close> narrows its entry number with \<^verbatim>\<open>uint32(in)\<close> before the bounds
  check. On an index that holds the single entry \<open>(5, 7)\<close>, \<^verbatim>\<open>Read(2^32)\<close> therefore
  returns entry 0 where the entry number lies beyond \<open>S/12 = 1\<close>. And an index opened
  over a file of 24 bytes with \<^verbatim>\<open>MaxIndexBytes = 12\<close> keeps the logical size 24 over a
  mapping of 12 bytes, so that \<^verbatim>\<open>Read(1)\<close>, inside the logical prefix, panics on the slice.
\<close>

theorem index_Read_counterexample:
  "index_Read \<lparr>idx_mmap = [0, 0, 0, 5, 0, 0, 0, 0, 0, 0, 0, 7], idx_size = 12\<rparr> (2 ^ 32) = Inr (5, 7) \<and>
   unat (idx_size \<lparr>idx_mmap = [0, 0, 0, 5, 0, 0, 0, 0, 0, 0, 0, 7], idx_size = 12\<rparr>) div 12 \<le> 2 ^ 32 \<and>
   newIndex (replicate 24 0) \<lparr>MaxStoreBytes = 0, MaxIndexBytes = 12\<rparr> =
     Inr \<lparr>idx_mmap = replicate 12 0, idx_size = 24\<rparr> \<and>
   index_Read \<lparr>idx_mmap = replicate 12 0, idx_size = 24\<rparr> 1 = Inl Panic"
  by (simp add: index_Read_def newIndex_def truncate_file_def entWidth_def offWidth_def posWidth_def
      slice_def slice_ok_def Uint32_def Uint64_def)

section \<open>Frames of the store\<close>

lemma frame_at_append: "frame_at c pos p \<Longrightarrow> frame_at (c @ d) pos p"
  by (simp add: frame_at_def)

lemma frame_at_end: "frame_at (c @ frame p) (length c) p"
  by (simp add: frame_at_def frame_def)

lemma frame_at_header:
  assumes "frame_at c pos p"
  shows "take 8 (drop pos c) = PutUint64 (of_nat (length p))"
proof -
  have "take 8 (drop pos c) = take 8 (take (8 + length p) (drop pos c))"
    by (simp add: min_def)
  also have "\<dots> = take 8 (frame p)"
    using assms by (simp add: frame_at_def)
  also have "\<dots> = PutUint64 (of_nat (length p))"
    by (simp add: frame_def)
  finally show ?thesis .
qed

lemma frame_at_payload:
  assumes "frame_at c pos p"
  shows "take (length p) (drop (pos + 8) c) = p"
proof -
  have "take (length p) (drop (pos + 8) c) = drop 8 (take (8 + length p) (drop pos c))"
    by (simp add: drop_take add.commute)
  also have "\<dots> = drop 8 (frame p)"
    using assms by (simp add: frame_at_def)
  also have "\<dots> = p"
    by (simp add: frame_def)
  finally show ?thesis .
qed

lemma sint_nonneg: "unat (w :: uint64) < 2 ^ 63 \<Longrightarrow> \<not> sint w < 0"
  by (simp add: sint_neg_iff)

lemma store_Read_frame:
  assumes err: "st_err s = None"
    and fr: "frame_at (st_file s @ st_buf s) (unat pos) p"
    and len: "length (st_file s @ st_buf s) < 2 ^ 63"
  shows "store_Read s pos = (s\<lparr>st_file := st_file s @ st_buf s, st_buf := []\<rparr>, Inr p)"
proof -
  define c where "c = st_file s @ st_buf s"
  have le: "unat pos + 8 + length p \<le> length c"
    using fr by (simp add: frame_at_def c_def)
  have lc: "length c < 2 ^ 63"
    using len by (simp add: c_def)
  have fl: "buf_Flush s = (s\<lparr>st_file := c, st_buf := []\<rparr>, None)"
    using err by (simp add: buf_Flush_def c_def)
  have p1: "\<not> sint pos < 0"
    using le lc by (intro sint_nonneg) simp
  have r1: "file_ReadAt c lenWidth pos = Inr (PutUint64 (of_nat (length p)))"
    using p1 le frame_at_header [OF fr] by (simp add: file_ReadAt_def lenWidth_def c_def)
  have lp: "length p < 2 ^ 63"
    using le lc by simp
  then have up: "unat (of_nat (length p) :: uint64) = length p"
    by (simp add: unat_of_nat64)
  have p2: "\<not> sint (of_nat (length p) :: uint64) < 0"
    using lp by (intro sint_nonneg) (simp add: up)
  have u8: "unat (pos + of_nat lenWidth) = unat pos + 8"
    using le lc unat_add_nat64 [of pos 8] by (simp add: lenWidth_def)
  have p3: "\<not> sint (pos + of_nat lenWidth) < 0"
    using le lc by (intro sint_nonneg) (simp add: u8)
  have r2: "file_ReadAt c (length p) (pos + of_nat lenWidth) = Inr p"
    using p3 le frame_at_payload [OF fr] by (auto simp add: file_ReadAt_def u8 c_def)
  show ?thesis
    using fl r1 r2 p2 by (simp add: store_Read_def up c_def)
qed

section \<open>A segment and its history\<close>

lemma length_log_entries [simp]: "length (log_entries lg) = length lg"
  by (simp add: log_entries_def)

lemma nth_log_entries: "k < length lg \<Longrightarrow> log_entries lg ! k = (of_nat k, fst (lg ! k))"
  by (simp add: log_entries_def)

lemma log_entries_snoc: "log_entries (lg @ [x]) = log_entries lg @ [(of_nat (length lg), fst x)]"
proof -
  have "map (\<lambda>k. (of_nat k :: uint32, fst ((lg @ [x]) ! k))) [0..<length lg] =
        map (\<lambda>k. (of_nat k, fst (lg ! k))) [0..<length lg]"
    by (rule map_cong [OF refl]) (simp add: nth_append)
  then show ?thesis
    by (simp add: log_entries_def)
qed

lemma store_holds_fail: "st_err st \<noteq> None \<Longrightarrow> store_holds st lg"
  by (auto simp add: store_holds_def)

lemma store_Append_content:
  assumes "store_Append st p ws = (st', Inr (n, pos))"
  shows "store_content st' = store_content st @ frame p" and "st_err st' = None"
    and "st_size st' = st_size st + of_nat (length p + 8)"
  using store_Append_ok [OF assms]
  by (simp_all add: store_content_def frame_def)

lemma store_holds_Append:
  assumes h: "store_holds st lg" and a: "store_Append st p ws = (st', Inr (n, pos))"
  shows "store_holds st' lg" and "store_holds st' (lg @ [(pos, p, r)])"
proof -
  note ok = store_Append_ok [OF a]
  note ct = store_Append_content [OF a]
  {
    assume len: "length (store_content st') < 2 ^ 63"
    then have len0: "length (store_content st) < 2 ^ 63"
      by (simp add: ct(1))
    with h ok(1) have sz: "unat (st_size st) = length (store_content st)"
      and fr: "\<forall>k<length lg. frame_at (store_content st) (unat (fst (lg ! k))) (fst (snd (lg ! k)))"
      by (simp_all add: store_holds_def)
    have "unat (st_size st) + (length p + 8) < 2 ^ 64"
      using len by (simp add: sz ct(1) frame_def)
    then have "unat (st_size st + of_nat (length p + 8)) = unat (st_size st) + (length p + 8)"
      by (rule unat_add_nat64)
    then have "unat (st_size st') = length (store_content st) + (length p + 8)"
      by (simp only: ct(3) sz)
    then have sz': "unat (st_size st') = length (store_content st')"
      by (simp add: ct(1) frame_def)
    have fr': "\<forall>k<length lg. frame_at (store_content st') (unat (fst (lg ! k))) (fst (snd (lg ! k)))"
      using fr by (simp add: ct(1) frame_at_append)
    have new: "frame_at (store_content st') (unat pos) p"
      unfolding ct(1) ok(5) sz by (rule frame_at_end)
    have fr'': "\<forall>k<length (lg @ [(pos, p, r)]).
        frame_at (store_content st') (unat (fst ((lg @ [(pos, p, r)]) ! k)))
          (fst (snd ((lg @ [(pos, p, r)]) ! k)))"
      using fr' new by (auto simp: nth_append less_Suc_eq)
    note sz' fr' fr''
  }
  then show "store_holds st' lg" and "store_holds st' (lg @ [(pos, p, r)])"
    by (simp_all add: store_holds_def)
qed

lemma seg_rel_rel_off:
  assumes "seg_rel m b c s lg"
  shows "(ucast (nextOffset s - baseOffset s) :: uint32) = of_nat (length lg)"
  using assms by (simp add: seg_rel_def ucast_of_nat_64_32)

lemma segment_Append_rel:
  assumes rel: "seg_rel m b c s lg" and app: "segment_Append m s r ws = (s', res)"
  shows "(\<forall>e. res = Inl e \<longrightarrow> seg_rel m b c s' lg) \<and>
         (\<forall>off. res = Inr off \<longrightarrow>
            off = b + of_nat (length lg) \<and> (\<exists>pos p. seg_rel m b c s' (lg @ [(pos, p, r)])))"
proof (cases "m (r\<lparr>Offset := nextOffset s\<rparr>)")
  case (Inl e)
  with app have "s' = s" "res = Inl e"
    by (simp_all add: segment_Append_def Let_def)
  with rel show ?thesis by simp
next
  case (Inr p)
  obtain st sres where sa: "store_Append (seg_store s) p ws = (st, sres)"
    by (cases "store_Append (seg_store s) p ws")
  show ?thesis
  proof (cases sres)
    case (Inl e)
    with app Inr sa have s': "s' = s\<lparr>seg_store := st\<rparr>" and res: "res = Inl e"
      by (simp_all add: segment_Append_def Let_def)
    have "st_err st \<noteq> None"
      using store_Append_fail [of "seg_store s" p ws st e] sa Inl by simp
    then have "store_holds st lg"
      by (rule store_holds_fail)
    with rel show ?thesis
      by (simp add: s' res seg_rel_def)
  next
    case (Inr np)
    obtain n pos where np: "np = (n, pos)" by (cases np)
    have sa': "store_Append (seg_store s) p ws = (st, Inr (n, pos))"
      using sa Inr np by simp
    have sh: "store_holds (seg_store s) lg"
      using rel by (simp add: seg_rel_def)
    note sh' = store_holds_Append(1) [OF sh sa'] store_holds_Append(2) [OF sh sa', of r]
    have ih: "index_holds (seg_index s) (log_entries lg)"
      using rel by (simp add: seg_rel_def)
    have ro: "(ucast (nextOffset s - baseOffset s) :: uint32) = of_nat (length lg)"
      by (rule seg_rel_rel_off [OF rel])
    obtain ix ir where iw: "index_Write (seg_index s) (of_nat (length lg)) pos = (ix, ir)"
      by (cases "index_Write (seg_index s) (of_nat (length lg)) pos")
    show ?thesis
    proof (cases "12 * length lg + 12 \<le> length (idx_mmap (seg_index s))")
      case True
      then have rm: "12 * length (log_entries lg) + 12 \<le> length (idx_mmap (seg_index s))"
        by simp
      from index_Write_room [OF ih rm, of "of_nat (length lg)" pos] iw
      have ix: "ix = \<lparr>idx_mmap = take (12 * length lg) (idx_mmap (seg_index s)) @
                        entry_bytes (of_nat (length lg), pos) @
                        drop (12 * length lg + 12) (idx_mmap (seg_index s)),
                     idx_size = idx_size (seg_index s) + entWidth\<rparr>" and ir: "ir = None"
        by simp_all
      have ih': "index_holds ix (log_entries (lg @ [(pos, p, r)]))"
        using index_holds_snoc [OF ih rm, of "(of_nat (length lg), pos)"]
        by (simp add: ix log_entries_snoc)
      have lm: "length (idx_mmap ix) = length (idx_mmap (seg_index s))"
        using True by (simp add: ix)
      from app \<open>m (r\<lparr>Offset := nextOffset s\<rparr>) = Inr p\<close> sa' iw ir ro
      have s': "s' = s\<lparr>seg_store := st, seg_index := ix, nextOffset := nextOffset s + 1\<rparr>"
        and res: "res = Inr (nextOffset s)"
        by (simp_all add: segment_Append_def Let_def)
      have mk: "\<forall>k<length (lg @ [(pos, p, r)]).
          m ((snd (snd ((lg @ [(pos, p, r)]) ! k)))\<lparr>Offset := b + of_nat k\<rparr>) =
          Inr (fst (snd ((lg @ [(pos, p, r)]) ! k)))"
        using rel \<open>m (r\<lparr>Offset := nextOffset s\<rparr>) = Inr p\<close>
        by (auto simp: seg_rel_def nth_append less_Suc_eq)
      have "seg_rel m b c s' (lg @ [(pos, p, r)])"
        using rel ih' lm mk sh'(2) by (simp add: s' seg_rel_def)
      moreover have "nextOffset s = b + of_nat (length lg)"
        using rel by (simp add: seg_rel_def)
      ultimately show ?thesis
        using res by auto
    next
      case False
      then have full: "length (idx_mmap (seg_index s)) < 12 * length (log_entries lg) + 12"
        by simp
      from index_Write_full [OF ih full, of "of_nat (length lg)" pos] iw
      have ix: "ix = seg_index s" and ir: "ir = Some EOF"
        by simp_all
      from app \<open>m (r\<lparr>Offset := nextOffset s\<rparr>) = Inr p\<close> sa' iw ir ix ro
      have s': "s' = s\<lparr>seg_store := st\<rparr>" and res: "res = Inl EOF"
        by (auto simp add: segment_Append_def Let_def)
      have "seg_rel m b c s' lg"
        using rel sh'(1) by (simp add: s' seg_rel_def)
      then show ?thesis
        using res by simp
    qed
  qed
qed

lemma newSegment_Inr:
  assumes "newSegment fs b c = Inr s"
  shows "\<exists>ix. newIndex (index_file fs) c = Inr ix \<and> seg_index s = ix \<and>
           index_Read ix (- 1) \<noteq> Inl Panic \<and>
           nextOffset s = (case index_Read ix (- 1) of Inl e \<Rightarrow> b | Inr x \<Rightarrow> b + ucast (fst x) + 1)"
    and "seg_store s = newStore (store_file fs)" and "baseOffset s = b" and "config s = c"
  using assms
  by (auto simp: newSegment_def Let_def split: sum.splits if_splits prod.splits)

lemma store_holds_newStore: "store_holds (newStore f) []"
  by (simp add: store_holds_def newStore_def store_content_def unat_of_nat64)

lemma newSegment_fresh:
  assumes "newSegment no_files b c = Inr s"
  shows "seg_rel m b c s []" and "seg_store s = newStore []"
proof -
  from newSegment_Inr [OF assms] obtain ix where ix: "newIndex [] c = Inr ix" "seg_index s = ix"
    "nextOffset s = (case index_Read ix (- 1) of Inl e \<Rightarrow> b | Inr x \<Rightarrow> b + ucast (fst x) + 1)"
    and rest: "seg_store s = newStore []" "baseOffset s = b" "config s = c"
    by (auto simp: no_files_def)
  note ni = newIndex_Inr [OF ix(1)]
  have h: "index_holds ix []"
    using ni by (simp add: index_holds_def)
  have "index_Read ix (- 1) = Inl EOF"
    using ni(1) by (simp add: index_Read_def)
  then have "nextOffset s = b"
    using ix(3) by simp
  then show "seg_rel m b c s []"
    using h ni(3) ix(2) rest store_holds_newStore [of "[]"]
    by (simp add: seg_rel_def log_entries_def)
  show "seg_store s = newStore []" by (rule rest(1))
qed

lemma newSegment_fresh_ok:
  assumes "0 < unat (MaxIndexBytes c)" and "unat (MaxIndexBytes c) < 2 ^ 63"
  shows "\<exists>s. newSegment no_files b c = Inr s"
proof -
  have "index_Read \<lparr>idx_mmap = take (unat (MaxIndexBytes c)) [] @ replicate (unat (MaxIndexBytes c) - length ([] :: byte list)) 0,
          idx_size = of_nat (length ([] :: byte list))\<rparr> (- 1) = Inl EOF"
    by (simp add: index_Read_def)
  then show ?thesis
    using newIndex_ok [OF assms, of "[]"]
    by (simp add: newSegment_def no_files_def Let_def)
qed

lemma segment_Read_rel:
  assumes rel: "seg_rel m b c s lg" and err: "st_err (seg_store s) = None"
    and len: "length (store_content (seg_store s)) < 2 ^ 63"
    and k: "k < length lg" and k32: "k < 2 ^ 32"
  shows "segment_Read u s (b + of_nat k) =
     (s\<lparr>seg_store := (seg_store s)\<lparr>st_file := store_content (seg_store s), st_buf := []\<rparr>\<rparr>,
      u (fst (snd (lg ! k))))"
proof -
  have ih: "index_holds (seg_index s) (log_entries lg)" and bo: "baseOffset s = b"
    using rel by (simp_all add: seg_rel_def)
  have ir: "index_Read (seg_index s) (of_nat k) = Inr (of_nat k, fst (lg ! k))"
    using index_holds_Read [OF ih of_nat_neq_minus1 [OF k32]] k
    by (simp add: unat_ucast_of_nat32 [OF k32] nth_log_entries)
  have "frame_at (store_content (seg_store s)) (unat (fst (lg ! k))) (fst (snd (lg ! k)))"
    using rel err len k by (simp add: seg_rel_def store_holds_def)
  then have sr: "store_Read (seg_store s) (fst (lg ! k)) =
      ((seg_store s)\<lparr>st_file := store_content (seg_store s), st_buf := []\<rparr>, Inr (fst (snd (lg ! k))))"
    using store_Read_frame [of "seg_store s" "fst (lg ! k)" "fst (snd (lg ! k))"] err len
    by (simp add: store_content_def)
  show ?thesis
    by (simp add: segment_Read_def bo ir sr)
qed

lemma upt_shift: "map f [0..<Suc n] = f 0 # map (\<lambda>j. f (Suc j)) [0..<n]"
  by (simp add: upt_conv_Cons map_Suc_upt [symmetric] del: upt_Suc)

lemma appends_rel:
  assumes "seg_rel m b c s lg" and "appends m s ins = (s', outs)"
  shows "\<exists>lg'. seg_rel m b c s' (lg @ lg') \<and> length outs = length ins \<and>
           length lg' = length (filter (\<lambda>q. \<not> isl q) outs) \<and>
           (list_all (\<lambda>q. \<not> isl q) outs \<longrightarrow>
              map (\<lambda>e. snd (snd e)) lg' = map fst ins \<and>
              outs = map (\<lambda>j. Inr (b + of_nat (length lg + j))) [0..<length ins])"
  using assms
proof (induction ins arbitrary: s lg s' outs)
  case Nil
  then show ?case by (intro exI [of _ "[]"]) simp
next
  case (Cons x xs)
  obtain s1 r1 where a: "segment_Append m s (fst x) (snd x) = (s1, r1)"
    by (cases "segment_Append m s (fst x) (snd x)")
  obtain s2 rs where as: "appends m s1 xs = (s2, rs)"
    by (cases "appends m s1 xs")
  from Cons.prems(2) a as have res: "s' = s2" "outs = r1 # rs"
    by simp_all
  note step = segment_Append_rel [OF Cons.prems(1) a]
  show ?case
  proof (cases r1)
    case (Inl e)
    with step have "seg_rel m b c s1 lg" by simp
    from Cons.IH [OF this as] obtain lg' where "seg_rel m b c s2 (lg @ lg')"
      "length rs = length xs" "length lg' = length (filter (\<lambda>q. \<not> isl q) rs)"
      by blast
    then show ?thesis
      by (intro exI [of _ lg']) (simp add: res Inl)
  next
    case (Inr off)
    with step obtain pos p where off: "off = b + of_nat (length lg)"
      and r1: "seg_rel m b c s1 (lg @ [(pos, p, fst x)])"
      by blast
    from Cons.IH [OF r1 as] obtain lg' where lg': "seg_rel m b c s2 ((lg @ [(pos, p, fst x)]) @ lg')"
      "length rs = length xs" "length lg' = length (filter (\<lambda>q. \<not> isl q) rs)"
      "list_all (\<lambda>q. \<not> isl q) rs \<longrightarrow>
         map (\<lambda>e. snd (snd e)) lg' = map fst xs \<and>
         rs = map (\<lambda>j. Inr (b + of_nat (length (lg @ [(pos, p, fst x)]) + j))) [0..<length xs]"
      by blast
    show ?thesis
      apply (intro exI [of _ "(pos, p, fst x) # lg'"])
      using lg' by (simp add: res Inr off upt_shift ac_simps del: upt_Suc)
  qed
qed

section \<open>Reading back\<close>




text \<open>
  C2. \<^verbatim>\<open>segment.Read\<close> hands \<^verbatim>\<open>int64(off - baseOffset)\<close> to \<^verbatim>\<open>index.Read\<close>, which
  narrows it to 32 bits and takes \<open>-1\<close> for the last entry. On a segment of base 1 that
  holds the offsets 1 and 2, the offset \<open>2^32 + 1\<close> (beyond \<open>nextOffset = 3\<close>) reads the
  record of offset 1, and the offset 0 (below the base) reads the record of offset 2.
\<close>

theorem segment_Read_out_of_range:
  "newSegment no_files 1 \<lparr>MaxStoreBytes = 1024, MaxIndexBytes = 36\<rparr> =
     Inr \<lparr>seg_store = \<lparr>st_file = [], st_buf = [], st_err = None, st_size = 0\<rparr>,
       seg_index = \<lparr>idx_mmap = replicate 36 0, idx_size = 0\<rparr>,
       baseOffset = 1, nextOffset = 1,
       config = \<lparr>MaxStoreBytes = 1024, MaxIndexBytes = 36\<rparr>\<rparr> \<and>
   appends wire_Marshal
     \<lparr>seg_store = \<lparr>st_file = [], st_buf = [], st_err = None, st_size = 0\<rparr>,
       seg_index = \<lparr>idx_mmap = replicate 36 0, idx_size = 0\<rparr>,
       baseOffset = 1, nextOffset = 1,
       config = \<lparr>MaxStoreBytes = 1024, MaxIndexBytes = 36\<rparr>\<rparr>
     [(\<lparr>Value = [104, 105], Offset = 0\<rparr>, (None, None)),
      (\<lparr>Value = [121, 111], Offset = 0\<rparr>, (None, None))] =
     (\<lparr>seg_store =
        \<lparr>st_file = [],
         st_buf = [0, 0, 0, 0, 0, 0, 0, 10, 0, 0, 0, 0, 0, 0, 0, 1, 104, 105,
                   0, 0, 0, 0, 0, 0, 0, 10, 0, 0, 0, 0, 0, 0, 0, 2, 121, 111],
         st_err = None, st_size = 36\<rparr>,
       seg_index =
        \<lparr>idx_mmap = [0, 0, 0, 0, 0, 0, 0, 0, 0, 0, 0, 0, 0, 0, 0, 1, 0, 0, 0, 0, 0, 0, 0, 18,
                     0, 0, 0, 0, 0, 0, 0, 0, 0, 0, 0, 0],
         idx_size = 24\<rparr>,
       baseOffset = 1, nextOffset = 3,
       config = \<lparr>MaxStoreBytes = 1024, MaxIndexBytes = 36\<rparr>\<rparr>,
      [Inr 1, Inr 2]) \<and>
   snd (segment_Read wire_Unmarshal
     \<lparr>seg_store =
        \<lparr>st_file = [],
         st_buf = [0, 0, 0, 0, 0, 0, 0, 10, 0, 0, 0, 0, 0, 0, 0, 1, 104, 105,
                   0, 0, 0, 0, 0, 0, 0, 10, 0, 0, 0, 0, 0, 0, 0, 2, 121, 111],
         st_err = None, st_size = 36\<rparr>,
       seg_index =
        \<lparr>idx_mmap = [0, 0, 0, 0, 0, 0, 0, 0, 0, 0, 0, 0, 0, 0, 0, 1, 0, 0, 0, 0, 0, 0, 0, 18,
                     0, 0, 0, 0, 0, 0, 0, 0, 0, 0, 0, 0],
         idx_size = 24\<rparr>,
       baseOffset = 1, nextOffset = 3,
       config = \<lparr>MaxStoreBytes = 1024, MaxIndexBytes = 36\<rparr>\<rparr>
     (2 ^ 32 + 1)) = Inr \<lparr>Value = [104, 105], Offset = 1\<rparr> \<and>
   snd (segment_Read wire_Unmarshal
     \<lparr>seg_store =
        \<lparr>st_file = [],
         st_buf = [0, 0, 0, 0, 0, 0, 0, 10, 0, 0, 0, 0, 0, 0, 0, 1, 104, 105,
                   0, 0, 0, 0, 0, 0, 0, 10, 0, 0, 0, 0, 0, 0, 0, 2, 121, 111],
         st_err = None, st_size = 36\<rparr>,
       seg_index =
        \<lparr>idx_mmap = [0, 0, 0, 0, 0, 0, 0, 0, 0, 0, 0, 0, 0, 0, 0, 1, 0, 0, 0, 0, 0, 0, 0, 18,
                     0, 0, 0, 0, 0, 0, 0, 0, 0, 0, 0, 0],
         idx_size = 24\<rparr>,
       baseOffset = 1, nextOffset = 3,
       config = \<lparr>MaxStoreBytes = 1024, MaxIndexBytes = 36\<rparr>\<rparr>
     0) = Inr \<lparr>Value = [121, 111], Offset = 2\<rparr>"
proof (intro conjI)
  show "newSegment no_files 1 \<lparr>MaxStoreBytes = 1024, MaxIndexBytes = 36\<rparr> =
     Inr \<lparr>seg_store = \<lparr>st_file = [], st_buf = [], st_err = None, st_size = 0\<rparr>,
       seg_index = \<lparr>idx_mmap = replicate 36 0, idx_size = 0\<rparr>,
       baseOffset = 1, nextOffset = 1,
       config = \<lparr>MaxStoreBytes = 1024, MaxIndexBytes = 36\<rparr>\<rparr>"
    by (simp add: newSegment_def newStore_def newIndex_def truncate_file_def no_files_def index_Read_def)
  show "appends wire_Marshal
     \<lparr>seg_store = \<lparr>st_file = [], st_buf = [], st_err = None, st_size = 0\<rparr>,
       seg_index = \<lparr>idx_mmap = replicate 36 0, idx_size = 0\<rparr>,
       baseOffset = 1, nextOffset = 1,
       config = \<lparr>MaxStoreBytes = 1024, MaxIndexBytes = 36\<rparr>\<rparr>
     [(\<lparr>Value = [104, 105], Offset = 0\<rparr>, (None, None)),
      (\<lparr>Value = [121, 111], Offset = 0\<rparr>, (None, None))] =
     (\<lparr>seg_store =
        \<lparr>st_file = [],
         st_buf = [0, 0, 0, 0, 0, 0, 0, 10, 0, 0, 0, 0, 0, 0, 0, 1, 104, 105,
                   0, 0, 0, 0, 0, 0, 0, 10, 0, 0, 0, 0, 0, 0, 0, 2, 121, 111],
         st_err = None, st_size = 36\<rparr>,
       seg_index =
        \<lparr>idx_mmap = [0, 0, 0, 0, 0, 0, 0, 0, 0, 0, 0, 0, 0, 0, 0, 1, 0, 0, 0, 0, 0, 0, 0, 18,
                     0, 0, 0, 0, 0, 0, 0, 0, 0, 0, 0, 0],
         idx_size = 24\<rparr>,
       baseOffset = 1, nextOffset = 3,
       config = \<lparr>MaxStoreBytes = 1024, MaxIndexBytes = 36\<rparr>\<rparr>,
      [Inr 1, Inr 2])"
    by code_simp
  show "snd (segment_Read wire_Unmarshal
     \<lparr>seg_store =
        \<lparr>st_file = [],
         st_buf = [0, 0, 0, 0, 0, 0, 0, 10, 0, 0, 0, 0, 0, 0, 0, 1, 104, 105,
                   0, 0, 0, 0, 0, 0, 0, 10, 0, 0, 0, 0, 0, 0, 0, 2, 121, 111],
         st_err = None, st_size = 36\<rparr>,
       seg_index =
        \<lparr>idx_mmap = [0, 0, 0, 0, 0, 0, 0, 0, 0, 0, 0, 0, 0, 0, 0, 1, 0, 0, 0, 0, 0, 0, 0, 18,
                     0, 0, 0, 0, 0, 0, 0, 0, 0, 0, 0, 0],
         idx_size = 24\<rparr>,
       baseOffset = 1, nextOffset = 3,
       config = \<lparr>MaxStoreBytes = 1024, MaxIndexBytes = 36\<rparr>\<rparr>
     (2 ^ 32 + 1)) = Inr \<lparr>Value = [104, 105], Offset = 1\<rparr>"
    by code_simp
  show "snd (segment_Read wire_Unmarshal
     \<lparr>seg_store =
        \<lparr>st_file = [],
         st_buf = [0, 0, 0, 0, 0, 0, 0, 10, 0, 0, 0, 0, 0, 0, 0, 1, 104, 105,
                   0, 0, 0, 0, 0, 0, 0, 10, 0, 0, 0, 0, 0, 0, 0, 2, 121, 111],
         st_err = None, st_size = 36\<rparr>,
       seg_index =
        \<lparr>idx_mmap = [0, 0, 0, 0, 0, 0, 0, 0, 0, 0, 0, 0, 0, 0, 0, 1, 0, 0, 0, 0, 0, 0, 0, 18,
                     0, 0, 0, 0, 0, 0, 0, 0, 0, 0, 0, 0],
         idx_size = 24\<rparr>,
       baseOffset = 1, nextOffset = 3,
       config = \<lparr>MaxStoreBytes = 1024, MaxIndexBytes = 36\<rparr>\<rparr>
     0) = Inr \<lparr>Value = [121, 111], Offset = 2\<rparr>"
    by code_simp
qed

section \<open>Capacity\<close>


lemma list_all_filter_id: "list_all P xs \<Longrightarrow> filter P xs = xs"
  by (simp add: list_all_iff)






section \<open>Recovery and the record count\<close>

lemma index_Read_full:
  "index_Read i n =
     (if idx_size i = 0 \<or> unat (idx_size i) < 12 * entry_no i n + 12 then Inl EOF
      else if length (idx_mmap i) < 12 * entry_no i n + 12 then Inl Panic
      else Inr (entry_at i (entry_no i n)))"
proof -
  define out :: uint32
    where "out = (if n = - 1 then ucast (idx_size i div entWidth - 1) else ucast n)"
  define pos :: uint64 where "pos = ucast out * entWidth"
  define k where "k = unat out"
  have k: "entry_no i n = k"
    by (simp add: entry_no_def k_def out_def)
  have k32: "k < 2 ^ 32"
    unfolding k_def by (rule unat32_less)
  have upos: "unat pos = 12 * k"
    by (simp add: pos_def k_def unat_entry_pos)
  have upos4: "unat (pos + offWidth) = 12 * k + 4"
    using k32 by (simp add: unat_add64 upos)
  have upos12: "unat (pos + entWidth) = 12 * k + 12"
    using k32 by (simp add: unat_add64 upos)
  have lt: "idx_size i < pos + entWidth \<longleftrightarrow> unat (idx_size i) < 12 * k + 12"
    by (simp add: word_less_nat_alt upos12)
  have rd: "index_Read i n =
      (if idx_size i = 0 then Inl EOF
       else if idx_size i < pos + entWidth then Inl EOF
       else case slice (idx_mmap i) pos (pos + offWidth) of
              Inl e \<Rightarrow> Inl e
            | Inr b1 \<Rightarrow>
               (case slice (idx_mmap i) (pos + offWidth) (pos + entWidth) of
                  Inl e \<Rightarrow> Inl e
                | Inr b2 \<Rightarrow> Inr (Uint32 b1, Uint64 b2)))"
    unfolding index_Read_def Let_def out_def [symmetric] pos_def [symmetric] by simp
  show ?thesis
  proof (cases "idx_size i = 0 \<or> unat (idx_size i) < 12 * k + 12")
    case True
    then show ?thesis
      using lt by (auto simp: rd k)
  next
    case False
    show ?thesis
    proof (cases "length (idx_mmap i) < 12 * k + 12")
      case short: True
      have nok: "\<not> slice_ok (idx_mmap i) (pos + offWidth) (pos + entWidth)"
        using short by (simp add: slice_ok_def upos4 upos12)
      have "(case slice (idx_mmap i) pos (pos + offWidth) of
              Inl e \<Rightarrow> Inl e
            | Inr b1 \<Rightarrow>
               (case slice (idx_mmap i) (pos + offWidth) (pos + entWidth) of
                  Inl e \<Rightarrow> Inl e
                | Inr b2 \<Rightarrow> Inr (Uint32 b1, Uint64 b2))) = Inl Panic"
        by (simp add: slice_def nok)
      then show ?thesis
        using False short lt by (simp add: rd k)
    next
      case long: False
      then have le: "12 * k + 12 \<le> length (idx_mmap i)" by simp
      have s1: "slice (idx_mmap i) pos (pos + offWidth) = Inr (take 4 (drop (12 * k) (idx_mmap i)))"
        using le by (simp add: slice_def slice_ok_def upos upos4)
      have s2: "slice (idx_mmap i) (pos + offWidth) (pos + entWidth) =
          Inr (take 8 (drop (12 * k + 4) (idx_mmap i)))"
        using le by (simp add: slice_def slice_ok_def upos4 upos12)
      show ?thesis
        using False long lt by (simp add: rd k s1 s2 entry_at_def)
    qed
  qed
qed

lemma newSegment_recovered:
  assumes ns: "newSegment fs b c = Inr s" and ok: "index_file_ok (index_file fs)"
  shows "nextOffset s = b + of_nat (length (index_file fs) div 12)"
    and "unat (idx_size (seg_index s)) = length (index_file fs)"
    and "index_file fs \<noteq> [] \<Longrightarrow> length (index_file fs) \<le> unat (MaxIndexBytes c)"
proof -
  define f where "f = index_file fs"
  define N where "N = length f div 12"
  have lf: "length f = 12 * N" and l63: "length f < 2 ^ 63"
    using ok by (auto simp: index_file_ok_def f_def N_def)
  from newSegment_Inr(1) [OF ns] obtain ix where ix: "newIndex f c = Inr ix" "seg_index s = ix"
    "index_Read ix (- 1) \<noteq> Inl Panic"
    "nextOffset s = (case index_Read ix (- 1) of Inl e \<Rightarrow> b | Inr x \<Rightarrow> b + ucast (fst x) + 1)"
    by (auto simp: f_def)
  note ni = newIndex_Inr [OF ix(1)]
  have "unat (of_nat (length f) :: uint64) = length f"
    using l63 by (intro unat_of_nat64) simp
  then have sz: "unat (idx_size ix) = 12 * N"
    by (simp only: ni(1) lf)
  show "unat (idx_size (seg_index s)) = length (index_file fs)"
    using sz by (simp add: ix(2) lf [symmetric] f_def)
  have main: "nextOffset s = b + of_nat N \<and> (f \<noteq> [] \<longrightarrow> 12 * N \<le> unat (MaxIndexBytes c))"
  proof (cases "N = 0")
    case True
    then have "idx_size ix = 0"
      using sz by (simp add: unat_eq_zero)
    then have "index_Read ix (- 1) = Inl EOF"
      by (simp add: index_Read_def)
    then show ?thesis
      using ix(4) True lf by simp
  next
    case False
    then have N1: "1 \<le> N" by simp
    then have fne: "f \<noteq> []" using lf by auto
    have "length f - 12 = 12 * (N - 1)"
      using lf N1 by simp
    then have last: "unat (Uint32 (take 4 (drop (12 * (N - 1)) f))) = N - 1"
      using ok fne by (simp add: index_file_ok_def f_def [symmetric] N_def)
    have N32: "N - 1 < 2 ^ 32"
      using unat32_less [of "Uint32 (take 4 (drop (12 * (N - 1)) f))"] last by simp
    have nz: "idx_size ix \<noteq> 0"
      using sz N1 by (auto simp: unat_eq_zero)
    have d: "unat (idx_size ix div entWidth) = N"
      by (simp add: unat_div sz)
    have "1 \<le> idx_size ix div entWidth"
      using N1 d by (simp add: word_le_nat_alt)
    then have "unat (idx_size ix div entWidth - 1) = N - 1"
      using d by (simp add: unat_sub)
    then have en: "entry_no ix (- 1) = N - 1"
      using N32 by (simp add: entry_no_def unat_ucast_64_32)
    have e12: "12 * (N - 1) + 12 = 12 * N"
      using N1 by simp
    have rd: "index_Read ix (- 1) =
        (if length (idx_mmap ix) < 12 * N then Inl Panic else Inr (entry_at ix (N - 1)))"
      unfolding index_Read_full en e12 sz using nz by simp
    with ix(3) have le: "12 * N \<le> length (idx_mmap ix)"
      by (auto split: if_splits)
    then have rd': "index_Read ix (- 1) = Inr (entry_at ix (N - 1))"
      using rd by simp
    have leM: "12 * N \<le> unat (MaxIndexBytes c)"
      using le ni(3) by simp
    have "take 4 (drop (12 * (N - 1)) (idx_mmap ix)) = take 4 (drop (12 * (N - 1)) f)"
      using leM lf N1 by (simp add: ni(2))
    then have "unat (fst (entry_at ix (N - 1))) = N - 1"
      using last by (simp add: entry_at_def)
    then have "unat (ucast (fst (entry_at ix (N - 1))) :: uint64) = N - 1"
      by (simp add: unat_ucast_32_64)
    moreover have "unat (of_nat (N - 1) :: uint64) = N - 1"
      using N32 by (intro unat_of_nat64) simp
    ultimately have "(ucast (fst (entry_at ix (N - 1))) :: uint64) = of_nat (N - 1)"
      by (simp add: word_unat_eq_iff)
    then have "nextOffset s = b + of_nat (N - 1) + 1"
      using ix(4) rd' by simp
    also have "\<dots> = b + of_nat N"
      using N1 by (simp add: of_nat_diff)
    finally show ?thesis
      using leM by simp
  qed
  show "nextOffset s = b + of_nat (length (index_file fs) div 12)"
    using main by (simp add: N_def f_def)
  show "length (index_file fs) \<le> unat (MaxIndexBytes c)" if "index_file fs \<noteq> []"
    using main that lf by (simp add: f_def)
qed









lemma segment_Close_Inr:
  assumes "segment_Close s = Inr fs"
  shows "index_Close (seg_index s) = Inr (index_file fs)"
    and "st_err (seg_store s) = None"
    and "store_file fs = store_content (seg_store s)"
  using assms
  by (auto simp: segment_Close_def store_Close_def buf_Flush_def store_content_def
      split: sum.splits option.splits)

lemma seg_rel_reopen:
  assumes rel: "seg_rel m b c0 s1 lg" and cl: "segment_Close s1 = Inr fs"
    and ns: "newSegment fs b c = Inr s" and ok: "index_file_ok (index_file fs)"
  shows "seg_rel m b c s lg" and "st_err (seg_store s) = None"
    and "store_content (seg_store s) = store_file fs"
    and "length (index_file fs) = 12 * length lg"
proof -
  note c = segment_Close_Inr [OF cl]
  have ih1: "index_holds (seg_index s1) (log_entries lg)"
    using rel by (simp add: seg_rel_def)
  have fi: "index_file fs = concat (map entry_bytes (log_entries lg))"
    using index_Close_holds [OF ih1] c(1) by simp
  show lf: "length (index_file fs) = 12 * length lg"
    by (simp add: fi)
  note r = newSegment_recovered [OF ns ok]
  from newSegment_Inr(1) [OF ns] obtain ix where ix: "newIndex (index_file fs) c = Inr ix"
    "seg_index s = ix"
    by auto
  note ni = newIndex_Inr [OF ix(1)]
  have "12 * length (log_entries lg) \<le> unat (MaxIndexBytes c)"
  proof (cases "lg = []")
    case True
    then show ?thesis by simp
  next
    case False
    then have "length (index_file fs) \<noteq> 0" using lf by simp
    then have "index_file fs \<noteq> []" by auto
    from r(3) [OF this] show ?thesis using lf by simp
  qed
  then have ih: "index_holds ix (log_entries lg)"
    using newIndex_entries_holds [of "log_entries lg" c ix] ix(1) by (simp add: fi)
  have st: "seg_store s = newStore (store_file fs)"
    by (rule newSegment_Inr(2) [OF ns])
  show e: "st_err (seg_store s) = None"
    by (simp add: st newStore_def)
  show ct: "store_content (seg_store s) = store_file fs"
    by (simp add: st newStore_def store_content_def)
  have sh: "store_holds (seg_store s) lg"
  proof -
    {
      assume len: "length (store_file fs) < 2 ^ 63"
      then have "unat (of_nat (length (store_file fs)) :: uint64) = length (store_file fs)"
        by (intro unat_of_nat64) simp
      then have sz: "unat (st_size (seg_store s)) = length (store_content (seg_store s))"
        by (simp add: st newStore_def store_content_def)
      have "\<forall>k<length lg. frame_at (store_content (seg_store s1)) (unat (fst (lg ! k))) (fst (snd (lg ! k)))"
        using rel c(2) len by (simp add: seg_rel_def store_holds_def c(3) [symmetric])
      then have "\<forall>k<length lg. frame_at (store_content (seg_store s)) (unat (fst (lg ! k))) (fst (snd (lg ! k)))"
        by (simp add: ct c(3))
      note sz this
    }
    then show ?thesis
      by (simp add: store_holds_def ct)
  qed
  have no: "nextOffset s = b + of_nat (length lg)"
    using r(1) by (simp add: lf)
  show "seg_rel m b c s lg"
    using rel ih sh no ni(3) ix(2) newSegment_Inr(3,4) [OF ns]
    by (simp add: seg_rel_def)
qed

lemma index_file_ok_bound:
  assumes "index_file_ok f"
  shows "length f div 12 \<le> 2 ^ 32"
proof (cases "f = []")
  case True
  then show ?thesis by simp
next
  case False
  with assms have "unat (Uint32 (take 4 (drop (length f - 12) f))) = length f div 12 - 1"
    by (simp add: index_file_ok_def)
  then have "length f div 12 - 1 < 2 ^ 32"
    using unat32_less [of "Uint32 (take 4 (drop (length f - 12) f))"] by simp
  then show ?thesis by simp
qed

text \<open>
  C4. A segment constructed over an index file of \<open>N\<close> whole entries whose last entry
  stores the relative offset \<open>N - 1\<close> has \<open>nextOffset = b + N\<close>; over an empty index it has
  \<open>nextOffset = b\<close>. And when the files are those left by closing a segment after \<open>N\<close>
  successful appends to a fresh segment of the same base (under any configuration), the
  \<open>k\<close>-th record is read back, at its original offset \<open>b + k\<close>, from the reopened segment,
  for every serialisation that deserialisation inverts on the records as stored.
\<close>

theorem segment_recovery:
  assumes ns: "newSegment fs b c = Inr s" and ok: "index_file_ok (index_file fs)"
  shows "nextOffset s = b + of_nat (length (index_file fs) div 12) \<and>
         (index_file fs = [] \<longrightarrow> nextOffset s = b) \<and>
         (\<forall>m u c0 s0 ins s1 outs.
            newSegment no_files b c0 = Inr s0 \<and> appends m s0 ins = (s1, outs) \<and>
            list_all (\<lambda>q. \<not> isl q) outs \<and> segment_Close s1 = Inr fs \<and>
            length (store_file fs) < 2 ^ 63 \<and>
            (\<forall>k<length ins. \<forall>p. m ((fst (ins ! k))\<lparr>Offset := b + of_nat k\<rparr>) = Inr p \<longrightarrow>
                u p = Inr ((fst (ins ! k))\<lparr>Offset := b + of_nat k\<rparr>))
            \<longrightarrow>
            length (index_file fs) = 12 * length ins \<and>
            nextOffset s = b + of_nat (length ins) \<and>
            (\<forall>k<length ins.
               snd (segment_Read u s (b + of_nat k)) = Inr ((fst (ins ! k))\<lparr>Offset := b + of_nat k\<rparr>)))"
proof -
  have no: "nextOffset s = b + of_nat (length (index_file fs) div 12)"
    by (rule newSegment_recovered(1) [OF ns ok])
  have emp: "index_file fs = [] \<longrightarrow> nextOffset s = b"
    using no by simp
  have rd: "length (index_file fs) = 12 * length ins \<and>
            nextOffset s = b + of_nat (length ins) \<and>
            (\<forall>k<length ins.
               snd (segment_Read u s (b + of_nat k)) = Inr ((fst (ins ! k))\<lparr>Offset := b + of_nat k\<rparr>))"
    if a: "newSegment no_files b c0 = Inr s0 \<and> appends m s0 ins = (s1, outs) \<and>
            list_all (\<lambda>q. \<not> isl q) outs \<and> segment_Close s1 = Inr fs \<and>
            length (store_file fs) < 2 ^ 63 \<and>
            (\<forall>k<length ins. \<forall>p. m ((fst (ins ! k))\<lparr>Offset := b + of_nat k\<rparr>) = Inr p \<longrightarrow>
                u p = Inr ((fst (ins ! k))\<lparr>Offset := b + of_nat k\<rparr>))"
    for m :: marshal and u :: unmarshal and c0 s0 ins s1 outs
  proof -
    from a have fresh: "newSegment no_files b c0 = Inr s0" and run: "appends m s0 ins = (s1, outs)"
      and allok: "list_all (\<lambda>q. \<not> isl q) outs" and cl: "segment_Close s1 = Inr fs"
      and len: "length (store_file fs) < 2 ^ 63"
      and codec: "\<forall>k<length ins. \<forall>p. m ((fst (ins ! k))\<lparr>Offset := b + of_nat k\<rparr>) = Inr p \<longrightarrow>
                  u p = Inr ((fst (ins ! k))\<lparr>Offset := b + of_nat k\<rparr>)"
      by simp_all
    from appends_rel [OF newSegment_fresh(1) [OF fresh, of m] run] allok obtain lg
      where rel1: "seg_rel m b c0 s1 lg" and lo: "length outs = length ins"
        and ll: "length lg = length (filter (\<lambda>q. \<not> isl q) outs)"
        and recs: "map (\<lambda>e. snd (snd e)) lg = map fst ins"
      by auto
    have lg: "length lg = length ins"
      using ll lo by (simp add: list_all_filter_id [OF allok])
    note ro = seg_rel_reopen [OF rel1 cl ns ok]
    have lf: "length (index_file fs) = 12 * length ins"
      using ro(4) lg by simp
    have nx: "nextOffset s = b + of_nat (length ins)"
      using ro(1) lg by (simp add: seg_rel_def)
    have n32: "length ins \<le> 2 ^ 32"
      using index_file_ok_bound [OF ok] lf by simp
    have lc: "length (store_content (seg_store s)) < 2 ^ 63"
      using len by (simp add: ro(3))
    have "snd (segment_Read u s (b + of_nat k)) = Inr ((fst (ins ! k))\<lparr>Offset := b + of_nat k\<rparr>)"
      if k: "k < length ins" for k
    proof -
      from k have kl: "k < length lg" and k32: "k < 2 ^ 32"
        using lg n32 by simp_all
      have rk: "snd (snd (lg ! k)) = fst (ins ! k)"
        using recs k kl by (metis nth_map length_map)
      have "m ((fst (ins ! k))\<lparr>Offset := b + of_nat k\<rparr>) = Inr (fst (snd (lg ! k)))"
        using ro(1) kl rk by (auto simp: seg_rel_def)
      with codec k have "u (fst (snd (lg ! k))) = Inr ((fst (ins ! k))\<lparr>Offset := b + of_nat k\<rparr>)"
        by blast
      then show ?thesis
        using segment_Read_rel [OF ro(1) ro(2) lc kl k32, of u] by simp
    qed
    then show ?thesis
      using lf nx by blast
  qed
  show ?thesis
    apply (intro conjI)
      apply (rule no)
     apply (rule emp)
    apply (intro allI impI)
    apply (erule rd)
    done
qed

lemma wire_round_trip: "wire_Marshal r = Inr p \<Longrightarrow> wire_Unmarshal p = Inr r"
  by (cases r) (auto simp: wire_Marshal_def wire_Unmarshal_def)

theorem segment_recovery_witness:
  "newSegment no_files 1 \<lparr>MaxStoreBytes = 1024, MaxIndexBytes = 36\<rparr> =
     Inr \<lparr>seg_store = \<lparr>st_file = [], st_buf = [], st_err = None, st_size = 0\<rparr>,
       seg_index = \<lparr>idx_mmap = replicate 36 0, idx_size = 0\<rparr>,
       baseOffset = 1, nextOffset = 1,
       config = \<lparr>MaxStoreBytes = 1024, MaxIndexBytes = 36\<rparr>\<rparr> \<and>
   appends wire_Marshal
     \<lparr>seg_store = \<lparr>st_file = [], st_buf = [], st_err = None, st_size = 0\<rparr>,
       seg_index = \<lparr>idx_mmap = replicate 36 0, idx_size = 0\<rparr>,
       baseOffset = 1, nextOffset = 1,
       config = \<lparr>MaxStoreBytes = 1024, MaxIndexBytes = 36\<rparr>\<rparr>
     [(\<lparr>Value = [104, 105], Offset = 0\<rparr>, (None, None)),
      (\<lparr>Value = [121, 111], Offset = 0\<rparr>, (None, None))] =
     (\<lparr>seg_store =
        \<lparr>st_file = [],
         st_buf = [0, 0, 0, 0, 0, 0, 0, 10, 0, 0, 0, 0, 0, 0, 0, 1, 104, 105,
                   0, 0, 0, 0, 0, 0, 0, 10, 0, 0, 0, 0, 0, 0, 0, 2, 121, 111],
         st_err = None, st_size = 36\<rparr>,
       seg_index =
        \<lparr>idx_mmap = [0, 0, 0, 0, 0, 0, 0, 0, 0, 0, 0, 0, 0, 0, 0, 1, 0, 0, 0, 0, 0, 0, 0, 18] @ replicate 12 0,
         idx_size = 24\<rparr>,
       baseOffset = 1, nextOffset = 3,
       config = \<lparr>MaxStoreBytes = 1024, MaxIndexBytes = 36\<rparr>\<rparr>,
      [Inr 1, Inr 2]) \<and>
   segment_Close
     \<lparr>seg_store =
        \<lparr>st_file = [],
         st_buf = [0, 0, 0, 0, 0, 0, 0, 10, 0, 0, 0, 0, 0, 0, 0, 1, 104, 105,
                   0, 0, 0, 0, 0, 0, 0, 10, 0, 0, 0, 0, 0, 0, 0, 2, 121, 111],
         st_err = None, st_size = 36\<rparr>,
       seg_index =
        \<lparr>idx_mmap = [0, 0, 0, 0, 0, 0, 0, 0, 0, 0, 0, 0, 0, 0, 0, 1, 0, 0, 0, 0, 0, 0, 0, 18] @ replicate 12 0,
         idx_size = 24\<rparr>,
       baseOffset = 1, nextOffset = 3,
       config = \<lparr>MaxStoreBytes = 1024, MaxIndexBytes = 36\<rparr>\<rparr> =
     Inr \<lparr>store_file = [0, 0, 0, 0, 0, 0, 0, 10, 0, 0, 0, 0, 0, 0, 0, 1, 104, 105,
                   0, 0, 0, 0, 0, 0, 0, 10, 0, 0, 0, 0, 0, 0, 0, 2, 121, 111],
       index_file = [0, 0, 0, 0, 0, 0, 0, 0, 0, 0, 0, 0, 0, 0, 0, 1, 0, 0, 0, 0, 0, 0, 0, 18]\<rparr> \<and>
   newSegment
     \<lparr>store_file = [0, 0, 0, 0, 0, 0, 0, 10, 0, 0, 0, 0, 0, 0, 0, 1, 104, 105,
                   0, 0, 0, 0, 0, 0, 0, 10, 0, 0, 0, 0, 0, 0, 0, 2, 121, 111],
       index_file = [0, 0, 0, 0, 0, 0, 0, 0, 0, 0, 0, 0, 0, 0, 0, 1, 0, 0, 0, 0, 0, 0, 0, 18]\<rparr> 1 \<lparr>MaxStoreBytes = 1024, MaxIndexBytes = 36\<rparr> =
     Inr \<lparr>seg_store =
        \<lparr>st_file = [0, 0, 0, 0, 0, 0, 0, 10, 0, 0, 0, 0, 0, 0, 0, 1, 104, 105,
                   0, 0, 0, 0, 0, 0, 0, 10, 0, 0, 0, 0, 0, 0, 0, 2, 121, 111],
         st_buf = [], st_err = None, st_size = 36\<rparr>,
       seg_index =
        \<lparr>idx_mmap = [0, 0, 0, 0, 0, 0, 0, 0, 0, 0, 0, 0, 0, 0, 0, 1, 0, 0, 0, 0, 0, 0, 0, 18] @ replicate 12 0,
         idx_size = 24\<rparr>,
       baseOffset = 1, nextOffset = 3,
       config = \<lparr>MaxStoreBytes = 1024, MaxIndexBytes = 36\<rparr>\<rparr> \<and>
   nextOffset
     \<lparr>seg_store =
        \<lparr>st_file = [0, 0, 0, 0, 0, 0, 0, 10, 0, 0, 0, 0, 0, 0, 0, 1, 104, 105,
                   0, 0, 0, 0, 0, 0, 0, 10, 0, 0, 0, 0, 0, 0, 0, 2, 121, 111],
         st_buf = [], st_err = None, st_size = 36\<rparr>,
       seg_index =
        \<lparr>idx_mmap = [0, 0, 0, 0, 0, 0, 0, 0, 0, 0, 0, 0, 0, 0, 0, 1, 0, 0, 0, 0, 0, 0, 0, 18] @ replicate 12 0,
         idx_size = 24\<rparr>,
       baseOffset = 1, nextOffset = 3,
       config = \<lparr>MaxStoreBytes = 1024, MaxIndexBytes = 36\<rparr>\<rparr> = 3 \<and>
   snd (segment_Read wire_Unmarshal
     \<lparr>seg_store =
        \<lparr>st_file = [0, 0, 0, 0, 0, 0, 0, 10, 0, 0, 0, 0, 0, 0, 0, 1, 104, 105,
                   0, 0, 0, 0, 0, 0, 0, 10, 0, 0, 0, 0, 0, 0, 0, 2, 121, 111],
         st_buf = [], st_err = None, st_size = 36\<rparr>,
       seg_index =
        \<lparr>idx_mmap = [0, 0, 0, 0, 0, 0, 0, 0, 0, 0, 0, 0, 0, 0, 0, 1, 0, 0, 0, 0, 0, 0, 0, 18] @ replicate 12 0,
         idx_size = 24\<rparr>,
       baseOffset = 1, nextOffset = 3,
       config = \<lparr>MaxStoreBytes = 1024, MaxIndexBytes = 36\<rparr>\<rparr> 1) =
     Inr \<lparr>Value = [104, 105], Offset = 1\<rparr> \<and>
   snd (segment_Read wire_Unmarshal
     \<lparr>seg_store =
        \<lparr>st_file = [0, 0, 0, 0, 0, 0, 0, 10, 0, 0, 0, 0, 0, 0, 0, 1, 104, 105,
                   0, 0, 0, 0, 0, 0, 0, 10, 0, 0, 0, 0, 0, 0, 0, 2, 121, 111],
         st_buf = [], st_err = None, st_size = 36\<rparr>,
       seg_index =
        \<lparr>idx_mmap = [0, 0, 0, 0, 0, 0, 0, 0, 0, 0, 0, 0, 0, 0, 0, 1, 0, 0, 0, 0, 0, 0, 0, 18] @ replicate 12 0,
         idx_size = 24\<rparr>,
       baseOffset = 1, nextOffset = 3,
       config = \<lparr>MaxStoreBytes = 1024, MaxIndexBytes = 36\<rparr>\<rparr> 2) =
     Inr \<lparr>Value = [121, 111], Offset = 2\<rparr>"
proof -
  have fresh: "newSegment no_files 1 \<lparr>MaxStoreBytes = 1024, MaxIndexBytes = 36\<rparr> =
     Inr \<lparr>seg_store = \<lparr>st_file = [], st_buf = [], st_err = None, st_size = 0\<rparr>,
       seg_index = \<lparr>idx_mmap = replicate 36 0, idx_size = 0\<rparr>,
       baseOffset = 1, nextOffset = 1,
       config = \<lparr>MaxStoreBytes = 1024, MaxIndexBytes = 36\<rparr>\<rparr>"
    by (simp add: newSegment_def newStore_def newIndex_def truncate_file_def no_files_def index_Read_def)
  have run: "appends wire_Marshal
     \<lparr>seg_store = \<lparr>st_file = [], st_buf = [], st_err = None, st_size = 0\<rparr>,
       seg_index = \<lparr>idx_mmap = replicate 36 0, idx_size = 0\<rparr>,
       baseOffset = 1, nextOffset = 1,
       config = \<lparr>MaxStoreBytes = 1024, MaxIndexBytes = 36\<rparr>\<rparr>
     [(\<lparr>Value = [104, 105], Offset = 0\<rparr>, (None, None)),
      (\<lparr>Value = [121, 111], Offset = 0\<rparr>, (None, None))] =
     (\<lparr>seg_store =
        \<lparr>st_file = [],
         st_buf = [0, 0, 0, 0, 0, 0, 0, 10, 0, 0, 0, 0, 0, 0, 0, 1, 104, 105,
                   0, 0, 0, 0, 0, 0, 0, 10, 0, 0, 0, 0, 0, 0, 0, 2, 121, 111],
         st_err = None, st_size = 36\<rparr>,
       seg_index =
        \<lparr>idx_mmap = [0, 0, 0, 0, 0, 0, 0, 0, 0, 0, 0, 0, 0, 0, 0, 1, 0, 0, 0, 0, 0, 0, 0, 18] @ replicate 12 0,
         idx_size = 24\<rparr>,
       baseOffset = 1, nextOffset = 3,
       config = \<lparr>MaxStoreBytes = 1024, MaxIndexBytes = 36\<rparr>\<rparr>,
      [Inr 1, Inr 2])"
    by code_simp
  have cl: "segment_Close
     \<lparr>seg_store =
        \<lparr>st_file = [],
         st_buf = [0, 0, 0, 0, 0, 0, 0, 10, 0, 0, 0, 0, 0, 0, 0, 1, 104, 105,
                   0, 0, 0, 0, 0, 0, 0, 10, 0, 0, 0, 0, 0, 0, 0, 2, 121, 111],
         st_err = None, st_size = 36\<rparr>,
       seg_index =
        \<lparr>idx_mmap = [0, 0, 0, 0, 0, 0, 0, 0, 0, 0, 0, 0, 0, 0, 0, 1, 0, 0, 0, 0, 0, 0, 0, 18] @ replicate 12 0,
         idx_size = 24\<rparr>,
       baseOffset = 1, nextOffset = 3,
       config = \<lparr>MaxStoreBytes = 1024, MaxIndexBytes = 36\<rparr>\<rparr> =
     Inr \<lparr>store_file = [0, 0, 0, 0, 0, 0, 0, 10, 0, 0, 0, 0, 0, 0, 0, 1, 104, 105,
                   0, 0, 0, 0, 0, 0, 0, 10, 0, 0, 0, 0, 0, 0, 0, 2, 121, 111],
       index_file = [0, 0, 0, 0, 0, 0, 0, 0, 0, 0, 0, 0, 0, 0, 0, 1, 0, 0, 0, 0, 0, 0, 0, 18]\<rparr>"
    by code_simp
  have ns: "newSegment
     \<lparr>store_file = [0, 0, 0, 0, 0, 0, 0, 10, 0, 0, 0, 0, 0, 0, 0, 1, 104, 105,
                   0, 0, 0, 0, 0, 0, 0, 10, 0, 0, 0, 0, 0, 0, 0, 2, 121, 111],
       index_file = [0, 0, 0, 0, 0, 0, 0, 0, 0, 0, 0, 0, 0, 0, 0, 1, 0, 0, 0, 0, 0, 0, 0, 18]\<rparr> 1 \<lparr>MaxStoreBytes = 1024, MaxIndexBytes = 36\<rparr> =
     Inr \<lparr>seg_store =
        \<lparr>st_file = [0, 0, 0, 0, 0, 0, 0, 10, 0, 0, 0, 0, 0, 0, 0, 1, 104, 105,
                   0, 0, 0, 0, 0, 0, 0, 10, 0, 0, 0, 0, 0, 0, 0, 2, 121, 111],
         st_buf = [], st_err = None, st_size = 36\<rparr>,
       seg_index =
        \<lparr>idx_mmap = [0, 0, 0, 0, 0, 0, 0, 0, 0, 0, 0, 0, 0, 0, 0, 1, 0, 0, 0, 0, 0, 0, 0, 18] @ replicate 12 0,
         idx_size = 24\<rparr>,
       baseOffset = 1, nextOffset = 3,
       config = \<lparr>MaxStoreBytes = 1024, MaxIndexBytes = 36\<rparr>\<rparr>"
    by code_simp
  have ok: "index_file_ok (index_file
     \<lparr>store_file = [0, 0, 0, 0, 0, 0, 0, 10, 0, 0, 0, 0, 0, 0, 0, 1, 104, 105,
                   0, 0, 0, 0, 0, 0, 0, 10, 0, 0, 0, 0, 0, 0, 0, 2, 121, 111],
       index_file = [0, 0, 0, 0, 0, 0, 0, 0, 0, 0, 0, 0, 0, 0, 0, 1, 0, 0, 0, 0, 0, 0, 0, 18]\<rparr>)"
    by (simp add: index_file_ok_def Uint32_def)
  have allok: "list_all (\<lambda>q. \<not> isl q) ([Inr 1, Inr 2] :: (error + uint64) list)"
    by simp
  have len: "length (store_file
     \<lparr>store_file = [0, 0, 0, 0, 0, 0, 0, 10, 0, 0, 0, 0, 0, 0, 0, 1, 104, 105,
                   0, 0, 0, 0, 0, 0, 0, 10, 0, 0, 0, 0, 0, 0, 0, 2, 121, 111],
       index_file = [0, 0, 0, 0, 0, 0, 0, 0, 0, 0, 0, 0, 0, 0, 0, 1, 0, 0, 0, 0, 0, 0, 0, 18]\<rparr>) < 2 ^ 63"
    by simp
  have codec: "\<forall>k<length ([(\<lparr>Value = [104, 105], Offset = 0\<rparr>, (None, None)),
      (\<lparr>Value = [121, 111], Offset = 0\<rparr>, (None, None))] :: (api_Record \<times> error option \<times> error option) list).
      \<forall>p. wire_Marshal ((fst (([(\<lparr>Value = [104, 105], Offset = 0\<rparr>, (None, None)),
      (\<lparr>Value = [121, 111], Offset = 0\<rparr>, (None, None))] :: (api_Record \<times> error option \<times> error option) list) ! k))\<lparr>Offset := 1 + of_nat k\<rparr>) = Inr p \<longrightarrow>
        wire_Unmarshal p = Inr ((fst (([(\<lparr>Value = [104, 105], Offset = 0\<rparr>, (None, None)),
      (\<lparr>Value = [121, 111], Offset = 0\<rparr>, (None, None))] :: (api_Record \<times> error option \<times> error option) list) ! k))\<lparr>Offset := 1 + of_nat k\<rparr>)"
    by (intro allI impI) (rule wire_round_trip)
  from segment_recovery [OF ns ok] fresh run allok cl len codec
  have t: "nextOffset
     \<lparr>seg_store =
        \<lparr>st_file = [0, 0, 0, 0, 0, 0, 0, 10, 0, 0, 0, 0, 0, 0, 0, 1, 104, 105,
                   0, 0, 0, 0, 0, 0, 0, 10, 0, 0, 0, 0, 0, 0, 0, 2, 121, 111],
         st_buf = [], st_err = None, st_size = 36\<rparr>,
       seg_index =
        \<lparr>idx_mmap = [0, 0, 0, 0, 0, 0, 0, 0, 0, 0, 0, 0, 0, 0, 0, 1, 0, 0, 0, 0, 0, 0, 0, 18] @ replicate 12 0,
         idx_size = 24\<rparr>,
       baseOffset = 1, nextOffset = 3,
       config = \<lparr>MaxStoreBytes = 1024, MaxIndexBytes = 36\<rparr>\<rparr> = 1 + of_nat (length ([(\<lparr>Value = [104, 105], Offset = 0\<rparr>, (None, None)),
      (\<lparr>Value = [121, 111], Offset = 0\<rparr>, (None, None))] :: (api_Record \<times> error option \<times> error option) list)) \<and>
    (\<forall>k<length ([(\<lparr>Value = [104, 105], Offset = 0\<rparr>, (None, None)),
      (\<lparr>Value = [121, 111], Offset = 0\<rparr>, (None, None))] :: (api_Record \<times> error option \<times> error option) list).
       snd (segment_Read wire_Unmarshal
     \<lparr>seg_store =
        \<lparr>st_file = [0, 0, 0, 0, 0, 0, 0, 10, 0, 0, 0, 0, 0, 0, 0, 1, 104, 105,
                   0, 0, 0, 0, 0, 0, 0, 10, 0, 0, 0, 0, 0, 0, 0, 2, 121, 111],
         st_buf = [], st_err = None, st_size = 36\<rparr>,
       seg_index =
        \<lparr>idx_mmap = [0, 0, 0, 0, 0, 0, 0, 0, 0, 0, 0, 0, 0, 0, 0, 1, 0, 0, 0, 0, 0, 0, 0, 18] @ replicate 12 0,
         idx_size = 24\<rparr>,
       baseOffset = 1, nextOffset = 3,
       config = \<lparr>MaxStoreBytes = 1024, MaxIndexBytes = 36\<rparr>\<rparr> (1 + of_nat k)) =
       Inr ((fst (([(\<lparr>Value = [104, 105], Offset = 0\<rparr>, (None, None)),
      (\<lparr>Value = [121, 111], Offset = 0\<rparr>, (None, None))] :: (api_Record \<times> error option \<times> error option) list) ! k))\<lparr>Offset := 1 + of_nat k\<rparr>))"
    by blast
  from t have n3: "nextOffset
     \<lparr>seg_store =
        \<lparr>st_file = [0, 0, 0, 0, 0, 0, 0, 10, 0, 0, 0, 0, 0, 0, 0, 1, 104, 105,
                   0, 0, 0, 0, 0, 0, 0, 10, 0, 0, 0, 0, 0, 0, 0, 2, 121, 111],
         st_buf = [], st_err = None, st_size = 36\<rparr>,
       seg_index =
        \<lparr>idx_mmap = [0, 0, 0, 0, 0, 0, 0, 0, 0, 0, 0, 0, 0, 0, 0, 1, 0, 0, 0, 0, 0, 0, 0, 18] @ replicate 12 0,
         idx_size = 24\<rparr>,
       baseOffset = 1, nextOffset = 3,
       config = \<lparr>MaxStoreBytes = 1024, MaxIndexBytes = 36\<rparr>\<rparr> = 3"
    by simp
  from t have "\<forall>k<2. snd (segment_Read wire_Unmarshal
     \<lparr>seg_store =
        \<lparr>st_file = [0, 0, 0, 0, 0, 0, 0, 10, 0, 0, 0, 0, 0, 0, 0, 1, 104, 105,
                   0, 0, 0, 0, 0, 0, 0, 10, 0, 0, 0, 0, 0, 0, 0, 2, 121, 111],
         st_buf = [], st_err = None, st_size = 36\<rparr>,
       seg_index =
        \<lparr>idx_mmap = [0, 0, 0, 0, 0, 0, 0, 0, 0, 0, 0, 0, 0, 0, 0, 1, 0, 0, 0, 0, 0, 0, 0, 18] @ replicate 12 0,
         idx_size = 24\<rparr>,
       baseOffset = 1, nextOffset = 3,
       config = \<lparr>MaxStoreBytes = 1024, MaxIndexBytes = 36\<rparr>\<rparr> (1 + of_nat k)) =
       Inr ((fst (([(\<lparr>Value = [104, 105], Offset = 0\<rparr>, (None, None)),
      (\<lparr>Value = [121, 111], Offset = 0\<rparr>, (None, None))] :: (api_Record \<times> error option \<times> error option) list) ! k))\<lparr>Offset := 1 + of_nat k\<rparr>)"
    by simp
  from this [rule_format, of 0] this [rule_format, of 1]
  have r1: "snd (segment_Read wire_Unmarshal
     \<lparr>seg_store =
        \<lparr>st_file = [0, 0, 0, 0, 0, 0, 0, 10, 0, 0, 0, 0, 0, 0, 0, 1, 104, 105,
                   0, 0, 0, 0, 0, 0, 0, 10, 0, 0, 0, 0, 0, 0, 0, 2, 121, 111],
         st_buf = [], st_err = None, st_size = 36\<rparr>,
       seg_index =
        \<lparr>idx_mmap = [0, 0, 0, 0, 0, 0, 0, 0, 0, 0, 0, 0, 0, 0, 0, 1, 0, 0, 0, 0, 0, 0, 0, 18] @ replicate 12 0,
         idx_size = 24\<rparr>,
       baseOffset = 1, nextOffset = 3,
       config = \<lparr>MaxStoreBytes = 1024, MaxIndexBytes = 36\<rparr>\<rparr> 1) =
     Inr \<lparr>Value = [104, 105], Offset = 1\<rparr>"
    and r2: "snd (segment_Read wire_Unmarshal
     \<lparr>seg_store =
        \<lparr>st_file = [0, 0, 0, 0, 0, 0, 0, 10, 0, 0, 0, 0, 0, 0, 0, 1, 104, 105,
                   0, 0, 0, 0, 0, 0, 0, 10, 0, 0, 0, 0, 0, 0, 0, 2, 121, 111],
         st_buf = [], st_err = None, st_size = 36\<rparr>,
       seg_index =
        \<lparr>idx_mmap = [0, 0, 0, 0, 0, 0, 0, 0, 0, 0, 0, 0, 0, 0, 0, 1, 0, 0, 0, 0, 0, 0, 0, 18] @ replicate 12 0,
         idx_size = 24\<rparr>,
       baseOffset = 1, nextOffset = 3,
       config = \<lparr>MaxStoreBytes = 1024, MaxIndexBytes = 36\<rparr>\<rparr> 2) =
     Inr \<lparr>Value = [121, 111], Offset = 2\<rparr>"
    by simp_all
  show ?thesis
    using fresh run cl ns n3 r1 r2 by blast
qed

end
